theory Spec2Isabelle
  imports Main "HOL-Library.Multiset"
begin

section \<open>Data model\<close>

text \<open>
  The messaging backend keeps four tables behind Prisma (conversations, their
  participants, messages and reactions) and one in-memory map of online users.
  Identifiers are opaque (UUID strings in the source, compared for equality only); they
  are numbers here, and the database's id generator is the counter \<open>nextId\<close>
  of the store. A \<open>Date\<close> is its number of milliseconds, and \<open>new Date()\<close>
  is the argument \<open>now\<close> of every operation. A JavaScript string is the list of
  its UTF-16 code units.
\<close>

type_synonym ident = nat
type_synonym time = int
type_synonym jsstring = "nat list"

datatype error = ValidationError | NotFoundError | ForbiddenError | PrismaValidationError

record conversation =
  conv_id :: ident
  conv_updatedAt :: time

record participant =
  part_id :: ident
  part_conversationId :: ident
  part_userId :: ident
  lastReadAt :: time

record message =
  msg_id :: ident
  msg_content :: jsstring
  msg_conversationId :: ident
  msg_senderId :: ident
  createdAt :: time
  isEdited :: bool
  editedAt :: "time option"

record reaction =
  react_id :: ident
  react_messageId :: ident
  react_userId :: ident
  react_emoji :: jsstring

record store =
  conversations :: "conversation list"
  participants :: "participant list"
  messages :: "message list"
  reactions :: "reaction list"
  nextId :: ident

section \<open>utils/validation.ts\<close>

text \<open>
  The characters that \<open>String.prototype.trim\<close> strips and that the regular
  expression class \<open>\s\<close> matches: ECMAScript's WhiteSpace and LineTerminator
  code points.
\<close>

definition isSpace :: "nat \<Rightarrow> bool" where
  "isSpace c \<longleftrightarrow>
     c = 9 \<or> c = 10 \<or> c = 11 \<or> c = 12 \<or> c = 13 \<or> c = 32 \<or> c = 160 \<or> c = 5760
     \<or> (8192 \<le> c \<and> c \<le> 8202) \<or> c = 8232 \<or> c = 8233 \<or> c = 8239 \<or> c = 8287
     \<or> c = 12288 \<or> c = 65279"

definition trim :: "jsstring \<Rightarrow> jsstring" where
  "trim input = rev (dropWhile isSpace (rev (dropWhile isSpace input)))"

text \<open>\<open>replace(/\s+/g, ' ')\<close>: every maximal run of whitespace becomes one space.\<close>

function replace_spaces :: "jsstring \<Rightarrow> jsstring" where
  "replace_spaces [] = []"
| "replace_spaces (c # cs) =
     (if isSpace c then 32 # replace_spaces (dropWhile isSpace cs)
      else c # replace_spaces cs)"
  by pat_completeness auto
termination
  by (relation "measure length") (auto simp: le_imp_less_Suc length_dropWhile_le)

definition sanitizeString :: "jsstring \<Rightarrow> jsstring" where
  "sanitizeString input = replace_spaces (trim input)"

section \<open>services/message.service.ts\<close>

text \<open>
  Every operation takes the store and returns its result, or the error it throws,
  together with the store it leaves behind.
\<close>

definition find_participant :: "store \<Rightarrow> ident \<Rightarrow> ident \<Rightarrow> participant option" where
  "find_participant s conversationId userId =
     find (\<lambda>p. part_conversationId p = conversationId \<and> part_userId p = userId) (participants s)"

definition some_participant :: "store \<Rightarrow> ident \<Rightarrow> ident \<Rightarrow> bool" where
  "some_participant s conversationId userId =
     list_ex (\<lambda>p. part_conversationId p = conversationId \<and> part_userId p = userId) (participants s)"

text \<open>
  Modelled from the spec: the Prisma schema is not part of the sources. A participant is
  created with the conversation; its \<open>lastReadAt\<close> watermark starts at the creation
  time, as does the conversation's last-activity timestamp.
\<close>

definition create_conversation :: "time \<Rightarrow> ident \<Rightarrow> ident \<Rightarrow> store \<Rightarrow> conversation \<times> store" where
  "create_conversation now user1Id user2Id s =
     (let c = \<lparr>conv_id = nextId s, conv_updatedAt = now\<rparr>;
          p1 = \<lparr>part_id = nextId s + 1, part_conversationId = nextId s,
                part_userId = user1Id, lastReadAt = now\<rparr>;
          p2 = \<lparr>part_id = nextId s + 2, part_conversationId = nextId s,
                part_userId = user2Id, lastReadAt = now\<rparr>
      in (c, s\<lparr>conversations := conversations s @ [c],
                participants := participants s @ [p1, p2],
                nextId := nextId s + 3\<rparr>))"

definition getOrCreateConversation ::
  "time \<Rightarrow> ident \<Rightarrow> ident \<Rightarrow> store \<Rightarrow> (error + conversation) \<times> store" where
  "getOrCreateConversation now user1Id user2Id s =
     (if user1Id = user2Id then (Inl ValidationError, s)
      else
        (case find (\<lambda>c. some_participant s (conv_id c) user1Id
                       \<and> some_participant s (conv_id c) user2Id) (conversations s) of
           Some existingConversation \<Rightarrow> (Inr existingConversation, s)
         | None \<Rightarrow>
             (case create_conversation now user1Id user2Id s of
                (c, s') \<Rightarrow> (Inr c, s'))))"

text \<open>
  \<open>prisma.message.findMany\<close> with \<open>orderBy: { createdAt: 'desc' }\<close>,
  \<open>skip\<close> and \<open>take\<close>. The page number and the page size are the integers that
  the controller reads with \<open>parseInt\<close>; either may be negative. Prisma rejects a
  negative \<open>skip\<close>, and for a negative \<open>take\<close> it pages from the other end of
  the ordering: it skips and takes in the reversed order and returns what it took in the
  order asked for.
\<close>

definition newest_first :: "store \<Rightarrow> ident \<Rightarrow> message list" where
  "newest_first s conversationId =
     rev (sort_key createdAt (filter (\<lambda>m. msg_conversationId m = conversationId) (messages s)))"

definition findMany_messages :: "store \<Rightarrow> ident \<Rightarrow> int \<Rightarrow> int \<Rightarrow> error + message list" where
  "findMany_messages s conversationId skip lim =
     (if skip < 0 then Inl PrismaValidationError
      else if 0 \<le> lim
        then Inr (take (nat lim) (drop (nat skip) (newest_first s conversationId)))
        else Inr (rev (take (nat (- lim))
                        (drop (nat skip) (rev (newest_first s conversationId))))))"

definition touch_lastReadAt :: "time \<Rightarrow> ident \<Rightarrow> store \<Rightarrow> store" where
  "touch_lastReadAt now participantId s =
     s\<lparr>participants :=
          map (\<lambda>p. if part_id p = participantId then p\<lparr>lastReadAt := now\<rparr> else p)
              (participants s)\<rparr>"

definition getMessages ::
  "time \<Rightarrow> ident \<Rightarrow> ident \<Rightarrow> int \<Rightarrow> int \<Rightarrow> store \<Rightarrow> (error + message list) \<times> store" where
  "getMessages now conversationId userId page lim s =
     (case find_participant s conversationId userId of
        None \<Rightarrow> (Inl ForbiddenError, s)
      | Some participant \<Rightarrow>
          (case findMany_messages s conversationId ((page - 1) * lim) lim of
             Inl e \<Rightarrow> (Inl e, s)
           | Inr msgs \<Rightarrow> (Inr (rev msgs), touch_lastReadAt now (part_id participant) s)))"

definition sendMessage ::
  "time \<Rightarrow> ident \<Rightarrow> ident \<Rightarrow> jsstring \<Rightarrow> store \<Rightarrow> (error + message \<times> ident) \<times> store" where
  "sendMessage now senderId recipientId content s =
     (case getOrCreateConversation now senderId recipientId s of
        (Inl e, s1) \<Rightarrow> (Inl e, s1)
      | (Inr conversation, s1) \<Rightarrow>
          (let m = \<lparr>msg_id = nextId s1, msg_content = sanitizeString content,
                    msg_conversationId = conv_id conversation, msg_senderId = senderId,
                    createdAt = now, isEdited = False, editedAt = None\<rparr>;
               s2 = s1\<lparr>messages := messages s1 @ [m], nextId := nextId s1 + 1\<rparr>;
               s3 = s2\<lparr>conversations :=
                         map (\<lambda>c. if conv_id c = conv_id conversation
                                   then c\<lparr>conv_updatedAt := now\<rparr> else c)
                             (conversations s2)\<rparr>
           in (Inr (m, conv_id conversation), s3)))"

definition editMessage ::
  "time \<Rightarrow> ident \<Rightarrow> ident \<Rightarrow> jsstring \<Rightarrow> store \<Rightarrow> (error + message) \<times> store" where
  "editMessage now messageId userId content s =
     (case find (\<lambda>m. msg_id m = messageId) (messages s) of
        None \<Rightarrow> (Inl NotFoundError, s)
      | Some m \<Rightarrow>
          if msg_senderId m \<noteq> userId then (Inl ForbiddenError, s)
          else
            (let updatedMessage = m\<lparr>msg_content := sanitizeString content,
                                     isEdited := True, editedAt := Some now\<rparr>
             in (Inr updatedMessage,
                 s\<lparr>messages := map (\<lambda>x. if msg_id x = messageId
                                          then x\<lparr>msg_content := sanitizeString content,
                                                 isEdited := True, editedAt := Some now\<rparr>
                                          else x) (messages s)\<rparr>)))"

text \<open>
  Modelled from the spec: the schema's cascade rules are not part of the sources.
  Deleting a message removes its reactions; deleting a conversation removes its
  participants, its messages and the reactions of those messages, in one statement.
\<close>

definition deleteMessage ::
  "ident \<Rightarrow> ident \<Rightarrow> store \<Rightarrow> (error + ident) \<times> store" where
  "deleteMessage messageId userId s =
     (case find (\<lambda>m. msg_id m = messageId) (messages s) of
        None \<Rightarrow> (Inl NotFoundError, s)
      | Some m \<Rightarrow>
          if \<not> some_participant s (msg_conversationId m) userId then (Inl ForbiddenError, s)
          else (Inr (msg_conversationId m),
                s\<lparr>messages := filter (\<lambda>x. msg_id x \<noteq> messageId) (messages s),
                  reactions := filter (\<lambda>r. react_messageId r \<noteq> messageId) (reactions s)\<rparr>))"

datatype action = added | removed

definition addReaction ::
  "ident \<Rightarrow> ident \<Rightarrow> jsstring \<Rightarrow> store \<Rightarrow> (error + action \<times> reaction) \<times> store" where
  "addReaction messageId userId emoji s =
     (case find (\<lambda>m. msg_id m = messageId) (messages s) of
        None \<Rightarrow> (Inl NotFoundError, s)
      | Some m \<Rightarrow>
          if \<not> some_participant s (msg_conversationId m) userId then (Inl ForbiddenError, s)
          else
            (case find (\<lambda>r. react_messageId r = messageId \<and> react_userId r = userId
                            \<and> react_emoji r = emoji) (reactions s) of
               Some existingReaction \<Rightarrow>
                 (Inr (removed, existingReaction),
                  s\<lparr>reactions := filter (\<lambda>r. react_id r \<noteq> react_id existingReaction)
                                         (reactions s)\<rparr>)
             | None \<Rightarrow>
                 (let r = \<lparr>react_id = nextId s, react_messageId = messageId,
                           react_userId = userId, react_emoji = emoji\<rparr>
                  in (Inr (added, r),
                      s\<lparr>reactions := reactions s @ [r], nextId := nextId s + 1\<rparr>))))"

definition in_conversation :: "store \<Rightarrow> ident \<Rightarrow> ident \<Rightarrow> bool" where
  "in_conversation s conversationId messageId =
     list_ex (\<lambda>m. msg_id m = messageId \<and> msg_conversationId m = conversationId) (messages s)"

definition deleteConversation ::
  "ident \<Rightarrow> ident \<Rightarrow> store \<Rightarrow> (error + ident list) \<times> store" where
  "deleteConversation conversationId userId s =
     (case find (\<lambda>c. conv_id c = conversationId) (conversations s) of
        None \<Rightarrow> (Inl NotFoundError, s)
      | Some c \<Rightarrow>
          if \<not> some_participant s conversationId userId then (Inl ForbiddenError, s)
          else
            (Inr (map part_userId
                    (filter (\<lambda>p. part_conversationId p = conversationId) (participants s))),
             s\<lparr>conversations := filter (\<lambda>x. conv_id x \<noteq> conversationId) (conversations s),
               participants :=
                 filter (\<lambda>p. part_conversationId p \<noteq> conversationId) (participants s),
               messages := filter (\<lambda>m. msg_conversationId m \<noteq> conversationId) (messages s),
               reactions :=
                 filter (\<lambda>r. \<not> in_conversation s conversationId (react_messageId r))
                        (reactions s)\<rparr>))"

definition markAsRead :: "time \<Rightarrow> ident \<Rightarrow> ident \<Rightarrow> store \<Rightarrow> (error + unit) \<times> store" where
  "markAsRead now conversationId userId s =
     (case find_participant s conversationId userId of
        None \<Rightarrow> (Inl ForbiddenError, s)
      | Some participant \<Rightarrow> (Inr (), touch_lastReadAt now (part_id participant) s))"

text \<open>
  One request to the service, and the store it leaves behind. \<open>getUserConversations\<close>
  only reads and is left out.
\<close>

datatype request =
    GetOrCreateConversation ident ident
  | GetMessages ident ident int int
  | SendMessage ident ident jsstring
  | EditMessage ident ident jsstring
  | DeleteMessage ident ident
  | AddReaction ident ident jsstring
  | DeleteConversation ident ident
  | MarkAsRead ident ident

fun exec :: "time \<Rightarrow> request \<Rightarrow> store \<Rightarrow> store" where
  "exec now (GetOrCreateConversation a b) s = snd (getOrCreateConversation now a b s)"
| "exec now (GetMessages c u page lim) s = snd (getMessages now c u page lim s)"
| "exec now (SendMessage a b content) s = snd (sendMessage now a b content s)"
| "exec now (EditMessage m u content) s = snd (editMessage now m u content s)"
| "exec now (DeleteMessage m u) s = snd (deleteMessage m u s)"
| "exec now (AddReaction m u e) s = snd (addReaction m u e s)"
| "exec now (DeleteConversation c u) s = snd (deleteConversation c u s)"
| "exec now (MarkAsRead c u) s = snd (markAsRead now c u s)"

text \<open>A history of requests, each with the time at which it is served.\<close>

fun run :: "(time \<times> request) list \<Rightarrow> store \<Rightarrow> store" where
  "run [] s = s"
| "run ((now, r) # rs) s = run rs (exec now r s)"

text \<open>
  A conversation of a user with themselves would show as two participant records of one
  conversation for the same user.
\<close>

definition has_self_conversation :: "store \<Rightarrow> bool" where
  "has_self_conversation s =
     list_ex (\<lambda>p. list_ex (\<lambda>q. part_id q \<noteq> part_id p
                              \<and> part_conversationId q = part_conversationId p
                              \<and> part_userId q = part_userId p) (participants s))
             (participants s)"

text \<open>
  What holds of the participant table in every state the service reaches: record ids are
  unique, the ids in use lie below the id counter, and no user is twice in a conversation.
\<close>

definition well_formed :: "store \<Rightarrow> bool" where
  "well_formed s \<longleftrightarrow>
     distinct (map part_id (participants s))
     \<and> list_all (\<lambda>p. part_id p < nextId s \<and> part_conversationId p < nextId s) (participants s)
     \<and> \<not> has_self_conversation s"

text \<open>No watermark lies after the time \<open>t\<close>.\<close>

definition read_before :: "time \<Rightarrow> store \<Rightarrow> bool" where
  "read_before t s = list_all (\<lambda>p. lastReadAt p \<le> t) (participants s)"

text \<open>The two participant records that a new conversation brings.\<close>

definition new_participants :: "time \<Rightarrow> ident \<Rightarrow> ident \<Rightarrow> store \<Rightarrow> participant list" where
  "new_participants now a b s =
     [\<lparr>part_id = nextId s + 1, part_conversationId = nextId s, part_userId = a, lastReadAt = now\<rparr>,
      \<lparr>part_id = nextId s + 2, part_conversationId = nextId s, part_userId = b, lastReadAt = now\<rparr>]"

section \<open>api/controllers/message.controller.ts\<close>

text \<open>
  \<open>parseInt(req.query.page) || 1\<close>: a query parameter is the integer that
  \<open>parseInt\<close> reads, or nothing when the parameter is absent or not a number; nothing
  and 0 give the default.
\<close>

definition or_default :: "int option \<Rightarrow> int \<Rightarrow> int" where
  "or_default parsed d = (case parsed of None \<Rightarrow> d | Some n \<Rightarrow> if n = 0 then d else n)"

record messages_response =
  resp_data :: "message list"
  resp_page :: int
  resp_limit :: int
  hasMore :: bool

definition getMessages_controller ::
  "time \<Rightarrow> ident \<Rightarrow> ident \<Rightarrow> int option \<Rightarrow> int option \<Rightarrow> store
     \<Rightarrow> (error + messages_response) \<times> store" where
  "getMessages_controller now conversationId userId pageParam limitParam s =
     (let page = or_default pageParam 1; lim = or_default limitParam 50
      in case getMessages now conversationId userId page lim s of
           (Inl e, s') \<Rightarrow> (Inl e, s')
         | (Inr msgs, s') \<Rightarrow>
             (Inr \<lparr>resp_data = msgs, resp_page = page, resp_limit = lim,
                   hasMore = (int (length msgs) = lim)\<rparr>, s'))"

section \<open>socket/handlers.ts\<close>

type_synonym socket_id = string

record socket =
  sock_id :: socket_id
  sock_userId :: ident

record server =
  db :: store
  onlineUsers :: "ident \<rightharpoonup> socket_id"

datatype target = ToRoom ident | ToSocket socket_id | BroadcastFrom socket_id

datatype event =
    UserOnline ident
  | UserOffline ident
  | MessageNew message
  | ConversationUpdate ident message
  | MessageEdited message

datatype 'a ack = AckSuccess 'a | AckFailure error

type_synonym emit = "target \<times> event"

definition on_connection :: "socket \<Rightarrow> server \<Rightarrow> emit list \<times> server" where
  "on_connection sock srv =
     ([(BroadcastFrom (sock_id sock), UserOnline (sock_userId sock))],
      srv\<lparr>onlineUsers := (onlineUsers srv)(sock_userId sock \<mapsto> sock_id sock)\<rparr>)"

definition on_disconnect :: "socket \<Rightarrow> server \<Rightarrow> emit list \<times> server" where
  "on_disconnect sock srv =
     ([(BroadcastFrom (sock_id sock), UserOffline (sock_userId sock))],
      srv\<lparr>onlineUsers := (onlineUsers srv)(sock_userId sock := None)\<rparr>)"

definition on_message_send ::
  "time \<Rightarrow> socket \<Rightarrow> ident \<Rightarrow> jsstring \<Rightarrow> bool \<Rightarrow> server
     \<Rightarrow> (emit list \<times> message ack option) \<times> server" where
  "on_message_send now sock recipientId content callback srv =
     (case sendMessage now (sock_userId sock) recipientId content (db srv) of
        (Inr (m, conversationId), s') \<Rightarrow>
          (((ToRoom conversationId, MessageNew m) #
            (case onlineUsers srv recipientId of
               Some recipientSocketId \<Rightarrow>
                 if recipientSocketId \<noteq> []
                 then [(ToSocket recipientSocketId, ConversationUpdate conversationId m)]
                 else []
             | None \<Rightarrow> []),
            if callback then Some (AckSuccess m) else None),
           srv\<lparr>db := s'\<rparr>)
      | (Inl e, s') \<Rightarrow>
          (([], if callback then Some (AckFailure e) else None), srv\<lparr>db := s'\<rparr>))"

definition on_message_edit ::
  "time \<Rightarrow> socket \<Rightarrow> ident \<Rightarrow> jsstring \<Rightarrow> bool \<Rightarrow> server
     \<Rightarrow> (emit list \<times> message ack option) \<times> server" where
  "on_message_edit now sock messageId content callback srv =
     (case editMessage now messageId (sock_userId sock) content (db srv) of
        (Inr m, s') \<Rightarrow>
          (([(ToRoom (msg_conversationId m), MessageEdited m)],
            if callback then Some (AckSuccess m) else None),
           srv\<lparr>db := s'\<rparr>)
      | (Inl e, s') \<Rightarrow>
          (([], if callback then Some (AckFailure e) else None), srv\<lparr>db := s'\<rparr>))"

section \<open>The normal form of a message text\<close>

text \<open>
  What the stored text is said to be: the words of the input (its maximal runs of
  characters that are not whitespace), joined by single spaces. This is the input without
  its leading and trailing whitespace and with every run of whitespace in between
  collapsed to one space.
\<close>

function tokens :: "jsstring \<Rightarrow> jsstring list" where
  "tokens [] = []"
| "tokens (c # cs) =
     (if isSpace c then tokens cs
      else (c # takeWhile (\<lambda>x. \<not> isSpace x) cs) # tokens (dropWhile (\<lambda>x. \<not> isSpace x) cs))"
  by pat_completeness auto
termination
  by (relation "measure length") (auto simp: le_imp_less_Suc length_dropWhile_le)

fun join_space :: "jsstring list \<Rightarrow> jsstring" where
  "join_space [] = []"
| "join_space [w] = w"
| "join_space (w # v # ws) = w @ 32 # join_space (v # ws)"

section \<open>Example states\<close>

definition empty_store :: store where
  "empty_store =
     \<lparr>conversations = [], participants = [], messages = [], reactions = [], nextId = 0\<rparr>"

text \<open>The thumbs-up emoji U+1F44D as its surrogate pair.\<close>

definition thumbs_up :: jsstring where
  "thumbs_up = [55357, 56397]"

text \<open>
  One conversation between the users 10 and 20 with three messages (stored out of
  chronological order) and one reaction of user 20 to the first message.
\<close>

definition demo_hi :: message where
  "demo_hi = \<lparr>msg_id = 3, msg_content = [104, 105], msg_conversationId = 0,
               msg_senderId = 10, createdAt = 1000, isEdited = False, editedAt = None\<rparr>"

definition demo_yo :: message where
  "demo_yo = \<lparr>msg_id = 4, msg_content = [121, 111], msg_conversationId = 0,
               msg_senderId = 20, createdAt = 2000, isEdited = False, editedAt = None\<rparr>"

definition demo_ok :: message where
  "demo_ok = \<lparr>msg_id = 5, msg_content = [111, 107], msg_conversationId = 0,
               msg_senderId = 10, createdAt = 3000, isEdited = False, editedAt = None\<rparr>"

definition demo_store :: store where
  "demo_store =
     \<lparr>conversations = [\<lparr>conv_id = 0, conv_updatedAt = 3000\<rparr>],
      participants =
        [\<lparr>part_id = 1, part_conversationId = 0, part_userId = 10, lastReadAt = 1000\<rparr>,
         \<lparr>part_id = 2, part_conversationId = 0, part_userId = 20, lastReadAt = 1500\<rparr>],
      messages = [demo_yo, demo_hi, demo_ok],
      reactions =
        [\<lparr>react_id = 6, react_messageId = 3, react_userId = 20, react_emoji = thumbs_up\<rparr>],
      nextId = 7\<rparr>"

definition demo_reader :: participant where
  "demo_reader = \<lparr>part_id = 1, part_conversationId = 0, part_userId = 10, lastReadAt = 1000\<rparr>"

section \<open>Auxiliary facts\<close>

lemma find_distinct_id:
  assumes "distinct (map f xs)" and "x \<in> set xs"
  shows "find (\<lambda>y. f y = f x) xs = Some x"
  using assms by (induction xs) auto

lemma find_append_if:
  "find P (xs @ ys) = (case find P xs of None \<Rightarrow> find P ys | Some x \<Rightarrow> Some x)"
  by (induction xs) simp_all

lemma replace_spaces_replicate:
  "\<not> isSpace c \<Longrightarrow> replace_spaces (replicate n c) = replicate n c"
  by (induction n) simp_all

lemma some_participant_create:
  "some_participant (snd (create_conversation now a b s)) x u
     \<longleftrightarrow> some_participant s x u \<or> (x = nextId s \<and> (u = a \<or> u = b))"
  by (auto simp: some_participant_def create_conversation_def Let_def list_ex_iff)

lemma conversations_create:
  "conversations (snd (create_conversation now a b s))
     = conversations s @ [fst (create_conversation now a b s)]"
  "conv_id (fst (create_conversation now a b s)) = nextId s"
  by (simp_all add: create_conversation_def Let_def)

lemma find_participant_None_iff:
  "find_participant s c u = None \<longleftrightarrow> \<not> some_participant s c u"
  by (auto simp: find_participant_def some_participant_def find_None_iff list_ex_iff)

lemma find_map_same:
  assumes "\<And>x. P (f x) = P x"
  shows "find P (map f xs) = map_option f (find P xs)"
  using assms by (induction xs) simp_all

lemma find_participant_touch:
  assumes "find_participant s c u = Some p"
  shows "find_participant (touch_lastReadAt now (part_id p) s) c u = Some (p\<lparr>lastReadAt := now\<rparr>)"
proof -
  let ?f = "\<lambda>q. if part_id q = part_id p then q\<lparr>lastReadAt := now\<rparr> else q"
  have "find (\<lambda>q. part_conversationId q = c \<and> part_userId q = u) (map ?f (participants s))
      = map_option ?f (find (\<lambda>q. part_conversationId q = c \<and> part_userId q = u) (participants s))"
    by (rule find_map_same) simp
  then show ?thesis
    using assms by (simp add: find_participant_def touch_lastReadAt_def)
qed

lemma page_slice:
  "rev (take l (drop k (rev S))) = drop (length S - k - l) (take (length S - k) S)"
  by (simp add: drop_rev take_rev)

lemma page_split:
  fixes S :: "'a list"
  defines "n \<equiv> length S"
  shows "take (n - k - l) S @ drop (n - k - l) (take (n - k) S) @ drop (n - k) S = S"
proof -
  have "take (n - k - l) S = take (n - k - l) (take (n - k) S)"
    by (simp add: min_def)
  then have "take (n - k - l) S @ drop (n - k - l) (take (n - k) S) = take (n - k) S"
    by (metis append_take_drop_id)
  then show ?thesis
    by (metis append.assoc append_take_drop_id)
qed

lemma getOrCreateConversation_succeeds:
  assumes "a \<noteq> b"
  shows "\<exists>c s1. getOrCreateConversation now a b s = (Inr c, s1) \<and> messages s1 = messages s"
proof (cases "find (\<lambda>c. some_participant s (conv_id c) a \<and> some_participant s (conv_id c) b)
                (conversations s)")
  case None
  with assms show ?thesis
    by (simp add: getOrCreateConversation_def create_conversation_def Let_def)
next
  case (Some c)
  with assms show ?thesis
    by (simp add: getOrCreateConversation_def)
qed

section \<open>Presence registry\<close>

text \<open>
  C1, as the code has it: the disconnect handler deletes the entry of the disconnecting
  user whatever socket it maps to. Entries of other users are untouched, \<open>user:offline\<close>
  is broadcast, and when a user connects on socket \<open>old\<close>, connects again on
  socket \<open>new\<close> and the first socket then disconnects, the user has no entry left.
\<close>

theorem disconnect_removes_entry_of_user:
  "onlineUsers (snd (on_disconnect sock srv)) = (onlineUsers srv)(sock_userId sock := None)
   \<and> fst (on_disconnect sock srv)
       = [(BroadcastFrom (sock_id sock), UserOffline (sock_userId sock))]
   \<and> onlineUsers (snd (on_disconnect \<lparr>sock_id = old, sock_userId = u\<rparr>
        (snd (on_connection \<lparr>sock_id = new, sock_userId = u\<rparr>
          (snd (on_connection \<lparr>sock_id = old, sock_userId = u\<rparr> srv)))))) u = None"
  by (simp add: on_disconnect_def on_connection_def)

text \<open>
  C1 as stated fails: user 7 connects on socket A and then on socket B, so that the
  registry maps 7 to B; the disconnect of the superseded socket A removes that entry.
\<close>

theorem stale_disconnect_evicts_newer_session:
  "onlineUsers (snd (on_connection \<lparr>sock_id = ''B'', sock_userId = 7\<rparr>
        (snd (on_connection \<lparr>sock_id = ''A'', sock_userId = 7\<rparr>
           \<lparr>db = empty_store, onlineUsers = Map.empty\<rparr>)))) 7 = Some ''B''
   \<and> onlineUsers (snd (on_disconnect \<lparr>sock_id = ''A'', sock_userId = 7\<rparr>
        (snd (on_connection \<lparr>sock_id = ''B'', sock_userId = 7\<rparr>
          (snd (on_connection \<lparr>sock_id = ''A'', sock_userId = 7\<rparr>
             \<lparr>db = empty_store, onlineUsers = Map.empty\<rparr>)))))) 7 \<noteq> Some ''B''"
  by (simp add: on_disconnect_def on_connection_def)

section \<open>Sending over the realtime channel\<close>

text \<open>
  C2 at its failing inputs: user 1 sends the empty string to user 2 over the socket. The
  handler acknowledges success, a message with empty content is stored and
  \<open>message:new\<close> is emitted to the room. A content of 10001 letters, one more than
  the limit of the HTTP validator, is stored at its full length as well.
\<close>

theorem empty_and_oversized_message_accepted:
  "fst (on_message_send 1000 \<lparr>sock_id = ''A'', sock_userId = 1\<rparr> 2 [] True
          \<lparr>db = empty_store, onlineUsers = Map.empty\<rparr>)
     = ([(ToRoom 0, MessageNew \<lparr>msg_id = 3, msg_content = [], msg_conversationId = 0,
            msg_senderId = 1, createdAt = 1000, isEdited = False, editedAt = None\<rparr>)],
        Some (AckSuccess \<lparr>msg_id = 3, msg_content = [], msg_conversationId = 0,
            msg_senderId = 1, createdAt = 1000, isEdited = False, editedAt = None\<rparr>))
   \<and> messages (db (snd (on_message_send 1000 \<lparr>sock_id = ''A'', sock_userId = 1\<rparr> 2 [] True
          \<lparr>db = empty_store, onlineUsers = Map.empty\<rparr>)))
     = [\<lparr>msg_id = 3, msg_content = [], msg_conversationId = 0,
            msg_senderId = 1, createdAt = 1000, isEdited = False, editedAt = None\<rparr>]
   \<and> map (length \<circ> msg_content)
        (messages (db (snd (on_message_send 1000 \<lparr>sock_id = ''A'', sock_userId = 1\<rparr> 2
           (replicate 10001 97) True \<lparr>db = empty_store, onlineUsers = Map.empty\<rparr>))))
     = [10001]"
  by (simp add: on_message_send_def sendMessage_def getOrCreateConversation_def
      create_conversation_def empty_store_def sanitizeString_def trim_def Let_def
      dropWhile_replicate replace_spaces_replicate isSpace_def)

section \<open>Conversations\<close>

lemma getOrCreateConversation_then_found:
  assumes "a \<noteq> b"
  shows "\<exists>c s1 c'. getOrCreateConversation t1 a b s = (Inr c, s1)
           \<and> c \<in> set (conversations s1)
           \<and> some_participant s1 (conv_id c) a \<and> some_participant s1 (conv_id c) b
           \<and> ((s1 = s
                \<and> list_ex (\<lambda>x. some_participant s (conv_id x) a \<and> some_participant s (conv_id x) b)
                     (conversations s))
              \<or> (list_all (\<lambda>x. \<not> (some_participant s (conv_id x) a
                                     \<and> some_participant s (conv_id x) b)) (conversations s)
                \<and> conv_id c = nextId s
                \<and> conversations s1 = conversations s @ [c]
                \<and> participants s1 = participants s @ new_participants t1 a b s
                \<and> messages s1 = messages s \<and> reactions s1 = reactions s))
           \<and> find (\<lambda>x. some_participant s1 (conv_id x) a \<and> some_participant s1 (conv_id x) b)
                 (conversations s1) = Some c'
           \<and> c' \<in> set (conversations s1)
           \<and> conv_id c' = conv_id c
           \<and> (nextId s \<notin> conv_id ` set (conversations s) \<longrightarrow> c' = c)"
proof (cases "find (\<lambda>c. some_participant s (conv_id c) a \<and> some_participant s (conv_id c) b)
                (conversations s)")
  case (Some c)
  then have "c \<in> set (conversations s)"
    and "some_participant s (conv_id c) a \<and> some_participant s (conv_id c) b"
    by (auto simp: find_Some_iff)
  moreover from this
  have "list_ex (\<lambda>x. some_participant s (conv_id x) a \<and> some_participant s (conv_id x) b)
      (conversations s)"
    by (auto simp: list_ex_iff)
  moreover have "getOrCreateConversation t1 a b s = (Inr c, s)"
    using assms Some by (simp add: getOrCreateConversation_def)
  ultimately show ?thesis
    using Some by blast
next
  case None
  define c where "c = fst (create_conversation t1 a b s)"
  define s1 where "s1 = snd (create_conversation t1 a b s)"
  let ?P = "\<lambda>x. some_participant s1 (conv_id x) a \<and> some_participant s1 (conv_id x) b"
  have first: "getOrCreateConversation t1 a b s = (Inr c, s1)"
    using assms None by (simp add: getOrCreateConversation_def c_def s1_def split: prod.splits)
  have old: "\<forall>x \<in> set (conversations s).
      \<not> (some_participant s (conv_id x) a \<and> some_participant s (conv_id x) b)"
    using None by (simp add: find_None_iff)
  then have none_before: "list_all (\<lambda>x. \<not> (some_participant s (conv_id x) a
      \<and> some_participant s (conv_id x) b)) (conversations s)"
    by (simp add: list_all_iff)
  have cid: "conv_id c = nextId s"
    by (simp add: c_def conversations_create)
  have convs: "conversations s1 = conversations s @ [c]"
    by (simp add: c_def s1_def conversations_create)
  have rest: "participants s1 = participants s @ new_participants t1 a b s"
    "messages s1 = messages s" "reactions s1 = reactions s"
    by (simp_all add: s1_def create_conversation_def new_participants_def Let_def)
  have stored: "c \<in> set (conversations s1)"
    by (simp add: convs)
  have Pc: "?P c"
    by (simp add: s1_def some_participant_create cid)
  then have "find ?P (conversations s1) \<noteq> None"
    by (auto simp: find_None_iff convs)
  then obtain c' where found: "find ?P (conversations s1) = Some c'"
    by auto
  then have P': "?P c'" and stored': "c' \<in> set (conversations s1)"
    by (auto simp: find_Some_iff)
  then have mem: "c' = c \<or> c' \<in> set (conversations s)"
    by (auto simp: convs)
  have same: "conv_id c' = conv_id c"
    using mem P' old cid by (auto simp: s1_def some_participant_create)
  have "nextId s \<notin> conv_id ` set (conversations s) \<longrightarrow> c' = c"
    using mem same cid by (metis image_eqI)
  with first stored Pc none_before cid convs rest found stored' same show ?thesis
    by blast
qed

text \<open>
  C3: for distinct users a and b, \<open>getOrCreateConversation a b\<close> returns a conversation
  that is in the store it leaves and has both a and b as participants there. When the
  store already held a conversation of a and b, nothing is written; otherwise the new
  conversation, under the next id, and its two participant records are appended. A second
  call, with the arguments in the same or in the opposite order, returns a stored
  conversation with the same id and leaves the store as the first call left it (nothing
  is created); when the id that the first call could generate was unused, it returns the
  very conversation the first call returned.
\<close>

theorem getOrCreateConversation_twice_same_id:
  assumes "a \<noteq> b"
  shows "\<exists>c s1. getOrCreateConversation t1 a b s = (Inr c, s1)
           \<and> c \<in> set (conversations s1)
           \<and> some_participant s1 (conv_id c) a \<and> some_participant s1 (conv_id c) b
           \<and> ((s1 = s
                \<and> list_ex (\<lambda>x. some_participant s (conv_id x) a \<and> some_participant s (conv_id x) b)
                     (conversations s))
              \<or> (list_all (\<lambda>x. \<not> (some_participant s (conv_id x) a
                                     \<and> some_participant s (conv_id x) b)) (conversations s)
                \<and> conv_id c = nextId s
                \<and> conversations s1 = conversations s @ [c]
                \<and> participants s1 = participants s @ new_participants t1 a b s
                \<and> messages s1 = messages s \<and> reactions s1 = reactions s))
           \<and> (\<exists>c'. getOrCreateConversation t2 a b s1 = (Inr c', s1)
                \<and> c' \<in> set (conversations s1) \<and> conv_id c' = conv_id c
                \<and> (nextId s \<notin> conv_id ` set (conversations s) \<longrightarrow> c' = c))
           \<and> (\<exists>c'. getOrCreateConversation t2 b a s1 = (Inr c', s1)
                \<and> c' \<in> set (conversations s1) \<and> conv_id c' = conv_id c
                \<and> (nextId s \<notin> conv_id ` set (conversations s) \<longrightarrow> c' = c))"
proof -
  from getOrCreateConversation_then_found [OF assms, of t1 s]
  obtain c s1 c' where first: "getOrCreateConversation t1 a b s = (Inr c, s1)"
    and stored: "c \<in> set (conversations s1)"
      "some_participant s1 (conv_id c) a \<and> some_participant s1 (conv_id c) b"
    and shape: "(s1 = s
                \<and> list_ex (\<lambda>x. some_participant s (conv_id x) a \<and> some_participant s (conv_id x) b)
                     (conversations s))
              \<or> (list_all (\<lambda>x. \<not> (some_participant s (conv_id x) a
                                     \<and> some_participant s (conv_id x) b)) (conversations s)
                \<and> conv_id c = nextId s
                \<and> conversations s1 = conversations s @ [c]
                \<and> participants s1 = participants s @ new_participants t1 a b s
                \<and> messages s1 = messages s \<and> reactions s1 = reactions s)"
    and found: "find (\<lambda>x. some_participant s1 (conv_id x) a \<and> some_participant s1 (conv_id x) b)
                  (conversations s1) = Some c'"
    and same: "c' \<in> set (conversations s1)" "conv_id c' = conv_id c"
      "nextId s \<notin> conv_id ` set (conversations s) \<longrightarrow> c' = c"
    by blast
  have swap: "(\<lambda>x. some_participant s1 (conv_id x) b \<and> some_participant s1 (conv_id x) a)
      = (\<lambda>x. some_participant s1 (conv_id x) a \<and> some_participant s1 (conv_id x) b)"
    by (auto simp: fun_eq_iff)
  have "getOrCreateConversation t2 a b s1 = (Inr c', s1)"
    using assms found by (simp add: getOrCreateConversation_def)
  moreover have "getOrCreateConversation t2 b a s1 = (Inr c', s1)"
    using assms found by (simp add: getOrCreateConversation_def swap)
  ultimately show ?thesis
    using first stored shape same by blast
qed

text \<open>
  The witness takes users 10 and 20 on the empty store, where the first call creates
  conversation 0, and on the example store, where their conversation exists.
\<close>

theorem getOrCreateConversation_twice_same_id_witness:
  "(10::nat) \<noteq> 20
   \<and> nextId empty_store \<notin> conv_id ` set (conversations empty_store)
   \<and> (\<exists>c s1. getOrCreateConversation 1 10 20 empty_store = (Inr c, s1)
        \<and> c = \<lparr>conv_id = 0, conv_updatedAt = 1\<rparr>
        \<and> conversations s1 = [c]
        \<and> participants s1 = new_participants 1 10 20 empty_store
        \<and> some_participant s1 (conv_id c) 10 \<and> some_participant s1 (conv_id c) 20
        \<and> getOrCreateConversation 2 10 20 s1 = (Inr c, s1)
        \<and> getOrCreateConversation 2 20 10 s1 = (Inr c, s1))
   \<and> (\<exists>c. getOrCreateConversation 1 10 20 demo_store = (Inr c, demo_store)
        \<and> c \<in> set (conversations demo_store)
        \<and> some_participant demo_store (conv_id c) 10
        \<and> some_participant demo_store (conv_id c) 20
        \<and> (\<exists>c'. getOrCreateConversation 2 10 20 demo_store = (Inr c', demo_store)
              \<and> conv_id c' = conv_id c)
        \<and> (\<exists>c'. getOrCreateConversation 2 20 10 demo_store = (Inr c', demo_store)
              \<and> conv_id c' = conv_id c))"
proof -
  have distinct_users: "(10::nat) \<noteq> 20"
    by simp
  have unused: "nextId empty_store \<notin> conv_id ` set (conversations empty_store)"
    by (simp add: empty_store_def)
  have blank: "\<not> list_ex (\<lambda>x. some_participant empty_store (conv_id x) 10
      \<and> some_participant empty_store (conv_id x) 20) (conversations empty_store)"
    "conversations empty_store = []" "participants empty_store = []" "nextId empty_store = 0"
    by (simp_all add: empty_store_def)
  have existing: "\<not> list_all (\<lambda>x. \<not> (some_participant demo_store (conv_id x) 10
      \<and> some_participant demo_store (conv_id x) 20)) (conversations demo_store)"
    by (simp add: demo_store_def some_participant_def)
  have made: "fst (getOrCreateConversation 1 10 20 empty_store) = Inr \<lparr>conv_id = 0, conv_updatedAt = 1\<rparr>"
    by (simp add: getOrCreateConversation_def create_conversation_def empty_store_def Let_def)
  note created = getOrCreateConversation_twice_same_id [OF distinct_users, of 1 empty_store 2]
  note found = getOrCreateConversation_twice_same_id [OF distinct_users, of 1 demo_store 2]
  from created obtain c s1 where first: "getOrCreateConversation 1 10 20 empty_store = (Inr c, s1)"
    and parts: "some_participant s1 (conv_id c) 10 \<and> some_participant s1 (conv_id c) 20"
    and shape: "(s1 = empty_store
          \<and> list_ex (\<lambda>x. some_participant empty_store (conv_id x) 10
                \<and> some_participant empty_store (conv_id x) 20) (conversations empty_store))
        \<or> (list_all (\<lambda>x. \<not> (some_participant empty_store (conv_id x) 10
                \<and> some_participant empty_store (conv_id x) 20)) (conversations empty_store)
          \<and> conv_id c = nextId empty_store
          \<and> conversations s1 = conversations empty_store @ [c]
          \<and> participants s1 = participants empty_store @ new_participants 1 10 20 empty_store
          \<and> messages s1 = messages empty_store \<and> reactions s1 = reactions empty_store)"
    and again: "\<exists>c'. getOrCreateConversation 2 10 20 s1 = (Inr c', s1)
          \<and> c' \<in> set (conversations s1) \<and> conv_id c' = conv_id c
          \<and> (nextId empty_store \<notin> conv_id ` set (conversations empty_store) \<longrightarrow> c' = c)"
    and swapped: "\<exists>c'. getOrCreateConversation 2 20 10 s1 = (Inr c', s1)
          \<and> c' \<in> set (conversations s1) \<and> conv_id c' = conv_id c
          \<and> (nextId empty_store \<notin> conv_id ` set (conversations empty_store) \<longrightarrow> c' = c)"
    by blast
  from shape blank(1) have new: "conversations s1 = conversations empty_store @ [c]"
    "participants s1 = participants empty_store @ new_participants 1 10 20 empty_store"
    by blast+
  have c: "c = \<lparr>conv_id = 0, conv_updatedAt = 1\<rparr>"
    using first made by simp
  have "conversations s1 = [c]" "participants s1 = new_participants 1 10 20 empty_store"
    using new by (simp_all add: blank(2,3))
  moreover have "getOrCreateConversation 2 10 20 s1 = (Inr c, s1)"
    using again unused by blast
  moreover have "getOrCreateConversation 2 20 10 s1 = (Inr c, s1)"
    using swapped unused by blast
  ultimately
  have part1: "\<exists>c s1. getOrCreateConversation 1 10 20 empty_store = (Inr c, s1)
        \<and> c = \<lparr>conv_id = 0, conv_updatedAt = 1\<rparr>
        \<and> conversations s1 = [c]
        \<and> participants s1 = new_participants 1 10 20 empty_store
        \<and> some_participant s1 (conv_id c) 10 \<and> some_participant s1 (conv_id c) 20
        \<and> getOrCreateConversation 2 10 20 s1 = (Inr c, s1)
        \<and> getOrCreateConversation 2 20 10 s1 = (Inr c, s1)"
    using first parts c by blast
  from found existing
  have part2: "\<exists>c. getOrCreateConversation 1 10 20 demo_store = (Inr c, demo_store)
        \<and> c \<in> set (conversations demo_store)
        \<and> some_participant demo_store (conv_id c) 10
        \<and> some_participant demo_store (conv_id c) 20
        \<and> (\<exists>c'. getOrCreateConversation 2 10 20 demo_store = (Inr c', demo_store)
              \<and> conv_id c' = conv_id c)
        \<and> (\<exists>c'. getOrCreateConversation 2 20 10 demo_store = (Inr c', demo_store)
              \<and> conv_id c' = conv_id c)"
    by blast
  from distinct_users unused part1 part2 show ?thesis
    by blast
qed

section \<open>Messages and reactions\<close>

text \<open>
  C7: when the actor is not the sender of a stored message, \<open>editMessage\<close> fails with
  \<open>ForbiddenError\<close> and the store, with every field of the message, is as before; the
  \<open>message:edit\<close> handler then emits nothing and acknowledges the failure.
\<close>

theorem editMessage_by_other_user_forbidden:
  assumes "distinct (map msg_id (messages s))" and "m \<in> set (messages s)"
    and "msg_senderId m \<noteq> userId"
  shows "editMessage now (msg_id m) userId content s = (Inl ForbiddenError, s)
     \<and> on_message_edit now \<lparr>sock_id = sid, sock_userId = userId\<rparr> (msg_id m) content cb
          \<lparr>db = s, onlineUsers = online\<rparr>
        = (([], if cb then Some (AckFailure ForbiddenError) else None),
           \<lparr>db = s, onlineUsers = online\<rparr>)"
  using assms find_distinct_id [of msg_id "messages s" m]
  by (simp add: editMessage_def on_message_edit_def)

theorem editMessage_by_other_user_forbidden_witness:
  "distinct (map msg_id (messages demo_store)) \<and> demo_hi \<in> set (messages demo_store)
   \<and> msg_senderId demo_hi \<noteq> 20
   \<and> editMessage 5000 (msg_id demo_hi) 20 [120] demo_store = (Inl ForbiddenError, demo_store)"
proof -
  have ids: "distinct (map msg_id (messages demo_store))"
    by (simp add: demo_store_def demo_hi_def demo_yo_def demo_ok_def)
  have stored: "demo_hi \<in> set (messages demo_store)"
    by (simp add: demo_store_def)
  have other: "msg_senderId demo_hi \<noteq> 20"
    by (simp add: demo_hi_def)
  from editMessage_by_other_user_forbidden [OF ids stored other, of 5000 "[120]"]
  show ?thesis using ids stored other by simp
qed

text \<open>
  C6: a participant reacts to a stored message with an emoji for which that user has no
  reaction on that message yet. The first call reports \<open>added\<close> and stores the
  reaction; the second call with the same arguments reports \<open>removed\<close> for that same
  reaction, and the reactions are the ones from before the first call (only the id counter
  has moved on).
\<close>

theorem addReaction_twice_restores:
  assumes msg: "find (\<lambda>m. msg_id m = messageId) (messages s) = Some m"
    and part: "some_participant s (msg_conversationId m) userId"
    and absent: "find (\<lambda>r. react_messageId r = messageId \<and> react_userId r = userId
                       \<and> react_emoji r = emoji) (reactions s) = None"
    and fresh: "\<forall>r \<in> set (reactions s). react_id r \<noteq> nextId s"
  shows "\<exists>r s1 s2.
           addReaction messageId userId emoji s = (Inr (added, r), s1)
         \<and> react_messageId r = messageId \<and> react_userId r = userId \<and> react_emoji r = emoji
         \<and> reactions s1 = reactions s @ [r]
         \<and> addReaction messageId userId emoji s1 = (Inr (removed, r), s2)
         \<and> reactions s2 = reactions s
         \<and> s2 = s\<lparr>nextId := nextId s + 1\<rparr>"
proof -
  define r where "r = \<lparr>react_id = nextId s, react_messageId = messageId,
                        react_userId = userId, react_emoji = emoji\<rparr>"
  define s1 where "s1 = s\<lparr>reactions := reactions s @ [r], nextId := nextId s + 1\<rparr>"
  have first: "addReaction messageId userId emoji s = (Inr (added, r), s1)"
    using msg part absent by (simp add: addReaction_def r_def s1_def Let_def)
  have again: "find (\<lambda>x. react_messageId x = messageId \<and> react_userId x = userId
                        \<and> react_emoji x = emoji) (reactions s1) = Some r"
    using absent by (simp add: s1_def r_def find_append_if)
  have keep: "filter (\<lambda>x. react_id x \<noteq> react_id r) (reactions s1) = reactions s"
    using fresh by (simp add: s1_def r_def filter_id_conv)
  have part1: "some_participant s1 (msg_conversationId m) userId"
    using part by (simp add: s1_def some_participant_def)
  have msg1: "find (\<lambda>m. msg_id m = messageId) (messages s1) = Some m"
    using msg by (simp add: s1_def)
  have second: "addReaction messageId userId emoji s1
      = (Inr (removed, r), s1\<lparr>reactions := reactions s\<rparr>)"
    using msg1 part1 again keep by (simp add: addReaction_def)
  have "s1\<lparr>reactions := reactions s\<rparr> = s\<lparr>nextId := nextId s + 1\<rparr>"
    by (simp add: s1_def)
  with first second show ?thesis
    by (auto simp: r_def s1_def)
qed

theorem addReaction_twice_restores_witness:
  "find (\<lambda>m. msg_id m = 3) (messages demo_store) = Some demo_hi
   \<and> some_participant demo_store (msg_conversationId demo_hi) 10
   \<and> find (\<lambda>r. react_messageId r = 3 \<and> react_userId r = 10 \<and> react_emoji r = thumbs_up)
        (reactions demo_store) = None
   \<and> nextId demo_store \<notin> react_id ` set (reactions demo_store)
   \<and> (\<exists>r s1 s2.
           addReaction 3 10 thumbs_up demo_store = (Inr (added, r), s1)
         \<and> react_messageId r = 3 \<and> react_userId r = 10 \<and> react_emoji r = thumbs_up
         \<and> reactions s1 = reactions demo_store @ [r]
         \<and> addReaction 3 10 thumbs_up s1 = (Inr (removed, r), s2)
         \<and> reactions s2 = reactions demo_store
         \<and> s2 = demo_store\<lparr>nextId := nextId demo_store + 1\<rparr>)"
proof -
  have msg: "find (\<lambda>m. msg_id m = 3) (messages demo_store) = Some demo_hi"
    by (simp add: demo_store_def demo_hi_def demo_yo_def)
  have part: "some_participant demo_store (msg_conversationId demo_hi) 10"
    by (simp add: demo_store_def demo_hi_def some_participant_def)
  have absent: "find (\<lambda>r. react_messageId r = 3 \<and> react_userId r = 10
      \<and> react_emoji r = thumbs_up) (reactions demo_store) = None"
    by (simp add: demo_store_def)
  have fresh: "\<forall>r \<in> set (reactions demo_store). react_id r \<noteq> nextId demo_store"
    by (simp add: demo_store_def)
  have unused: "nextId demo_store \<notin> react_id ` set (reactions demo_store)"
    by (simp add: demo_store_def)
  from addReaction_twice_restores [OF msg part absent fresh]
  show ?thesis using msg part absent unused by simp
qed

section \<open>Deleting a conversation\<close>

text \<open>
  C4, as the code has it: when the conversation exists and the actor is one of its
  participants, \<open>deleteConversation\<close> returns the user ids of the participants and, in
  the one step, removes the conversation, its participants, its messages and the
  reactions to those messages, leaving every other row in place. Afterwards the store
  holds no message of that conversation, and \<open>getMessages\<close> for that conversation id
  fails with \<open>ForbiddenError\<close> for every user, since no participant record is left.
\<close>

theorem deleteConversation_removes_all:
  assumes "cid \<in> conv_id ` set (conversations s)" and "some_participant s cid userId"
  shows "\<exists>s'. deleteConversation cid userId s
           = (Inr (map part_userId
                (filter (\<lambda>p. part_conversationId p = cid) (participants s))), s')
       \<and> set (conversations s') = {c \<in> set (conversations s). conv_id c \<noteq> cid}
       \<and> set (participants s') = {p \<in> set (participants s). part_conversationId p \<noteq> cid}
       \<and> set (messages s') = {m \<in> set (messages s). msg_conversationId m \<noteq> cid}
       \<and> set (reactions s')
           = {r \<in> set (reactions s). \<not> in_conversation s cid (react_messageId r)}
       \<and> newest_first s' cid = []
       \<and> getMessages now cid u page lim s' = (Inl ForbiddenError, s')"
proof -
  define s' where "s' = snd (deleteConversation cid userId s)"
  from assms(1) obtain c where "find (\<lambda>c. conv_id c = cid) (conversations s) = Some c"
    by (cases "find (\<lambda>c. conv_id c = cid) (conversations s)") (auto simp: find_None_iff)
  then have run: "deleteConversation cid userId s
      = (Inr (map part_userId
          (filter (\<lambda>p. part_conversationId p = cid) (participants s))), s')"
    and s': "s' = s\<lparr>conversations := filter (\<lambda>x. conv_id x \<noteq> cid) (conversations s),
               participants :=
                 filter (\<lambda>p. part_conversationId p \<noteq> cid) (participants s),
               messages := filter (\<lambda>m. msg_conversationId m \<noteq> cid) (messages s),
               reactions :=
                 filter (\<lambda>r. \<not> in_conversation s cid (react_messageId r))
                        (reactions s)\<rparr>"
    using assms(2) by (simp_all add: deleteConversation_def s'_def)
  have none: "find_participant s' cid u = None"
    by (simp add: find_participant_None_iff some_participant_def s' list_ex_iff)
  have "newest_first s' cid = []"
    by (simp add: newest_first_def s')
  moreover have "getMessages now cid u page lim s' = (Inl ForbiddenError, s')"
    by (simp add: getMessages_def none)
  moreover have "set (conversations s') = {c \<in> set (conversations s). conv_id c \<noteq> cid}"
    and "set (participants s') = {p \<in> set (participants s). part_conversationId p \<noteq> cid}"
    and "set (messages s') = {m \<in> set (messages s). msg_conversationId m \<noteq> cid}"
    and "set (reactions s')
           = {r \<in> set (reactions s). \<not> in_conversation s cid (react_messageId r)}"
    by (simp_all add: s')
  ultimately show ?thesis
    using run by blast
qed

theorem deleteConversation_removes_all_witness:
  "0 \<in> conv_id ` set (conversations demo_store) \<and> some_participant demo_store 0 20
   \<and> (\<exists>s'. deleteConversation 0 20 demo_store
           = (Inr (map part_userId
                (filter (\<lambda>p. part_conversationId p = 0) (participants demo_store))), s')
       \<and> set (conversations s') = {c \<in> set (conversations demo_store). conv_id c \<noteq> 0}
       \<and> set (participants s')
           = {p \<in> set (participants demo_store). part_conversationId p \<noteq> 0}
       \<and> set (messages s') = {m \<in> set (messages demo_store). msg_conversationId m \<noteq> 0}
       \<and> set (reactions s')
           = {r \<in> set (reactions demo_store).
                \<not> in_conversation demo_store 0 (react_messageId r)}
       \<and> newest_first s' 0 = []
       \<and> getMessages 9000 0 20 1 50 s' = (Inl ForbiddenError, s'))"
proof -
  have exists: "0 \<in> conv_id ` set (conversations demo_store)"
    by (simp add: demo_store_def)
  have member: "some_participant demo_store 0 20"
    by (simp add: demo_store_def some_participant_def)
  from deleteConversation_removes_all [OF exists member, of 9000 20 1 50]
  show ?thesis using exists member by simp
qed

text \<open>
  C4 as stated fails in its last part: after user 10 has deleted conversation 0, asking
  for its messages returns neither an empty page nor \<open>NotFoundError\<close>.
\<close>

theorem messages_after_deleteConversation_forbidden:
  "some_participant demo_store 0 10
   \<and> fst (deleteConversation 0 10 demo_store) = Inr [10, 20]
   \<and> fst (getMessages 9000 0 10 1 50 (snd (deleteConversation 0 10 demo_store)))
       = Inl ForbiddenError
   \<and> fst (getMessages 9000 0 10 1 50 (snd (deleteConversation 0 10 demo_store))) \<noteq> Inr []
   \<and> fst (getMessages 9000 0 10 1 50 (snd (deleteConversation 0 10 demo_store)))
       \<noteq> Inl NotFoundError"
  by (simp add: demo_store_def some_participant_def deleteConversation_def getMessages_def
      find_participant_def)

section \<open>Reading messages\<close>

lemma sorted_slice:
  assumes "sorted (map f xs)"
  shows "sorted (map f (drop a (take b xs)))" and "sorted (map f (take b (drop a xs)))"
proof -
  have "sorted (drop a (take b (map f xs)))"
    using assms by (intro sorted_wrt_drop sorted_wrt_take)
  then show "sorted (map f (drop a (take b xs)))"
    by (simp only: drop_map take_map)
  have "sorted (take b (drop a (map f xs)))"
    using assms by (intro sorted_wrt_take sorted_wrt_drop)
  then show "sorted (map f (take b (drop a xs)))"
    by (simp only: drop_map take_map)
qed

lemma findMany_messages_sorted:
  assumes "findMany_messages s c skip lim = Inr found"
  shows "sorted (map createdAt (rev found))
     \<and> set found \<subseteq> {m \<in> set (messages s). msg_conversationId m = c}"
proof -
  define S where "S = sort_key createdAt (filter (\<lambda>m. msg_conversationId m = c) (messages s))"
  have S: "sorted (map createdAt S)" "set S = {m \<in> set (messages s). msg_conversationId m = c}"
    by (auto simp: S_def)
  from assms have skip: "\<not> skip < 0"
    by (auto simp: findMany_messages_def split: if_splits)
  show ?thesis
  proof (cases "0 \<le> lim")
    case True
    with assms skip have found: "rev found
        = drop (length S - nat skip - nat lim) (take (length S - nat skip) S)"
      by (auto simp: findMany_messages_def newest_first_def S_def page_slice)
    have "sorted (map createdAt (rev found))"
      unfolding found using S(1) by (rule sorted_slice)
    moreover have "set (rev found) \<subseteq> set S"
      unfolding found by (meson set_drop_subset set_take_subset subset_trans)
    ultimately show ?thesis
      using S(2) by simp
  next
    case False
    with assms skip have found: "rev found = take (nat (- lim)) (drop (nat skip) S)"
      by (auto simp: findMany_messages_def newest_first_def S_def)
    have "sorted (map createdAt (rev found))"
      unfolding found using S(1) by (rule sorted_slice)
    moreover have "set (rev found) \<subseteq> set S"
      unfolding found by (meson set_drop_subset set_take_subset subset_trans)
    ultimately show ?thesis
      using S(2) by simp
  qed
qed

text \<open>
  C5, as the code has it: \<open>getMessages\<close> fails with \<open>ForbiddenError\<close>, leaving the
  store as it was, when the user is not a participant. For a participant the call computes
  \<open>skip = (page - 1) * limit\<close>. When that is negative (page 0 or a negative page with
  a positive limit), the query is rejected: the call fails with the query's error and the
  watermark stays as it was. Otherwise the call returns messages of the conversation
  oldest-first and the caller's participant record then carries \<open>lastReadAt = now\<close>;
  nothing else changes. For a page number from 1 on and a limit that is not negative, the
  messages of the conversation, in chronological order, are \<open>older @ msgs @ newer\<close>,
  where \<open>newer\<close> holds the \<open>(page - 1) * limit\<close> most recent messages (none on
  page 1) and the returned \<open>msgs\<close> the next \<open>limit\<close> ones, as far as there are
  that many: page 1 is the most recent \<open>limit\<close> messages and later pages go back
  in time.
\<close>

theorem getMessages_pages:
  "(\<not> some_participant s c u \<longrightarrow> getMessages now c u page lim s = (Inl ForbiddenError, s))
   \<and> (some_participant s c u \<and> (page - 1) * lim < 0 \<longrightarrow>
        getMessages now c u page lim s = (Inl PrismaValidationError, s))
   \<and> (some_participant s c u \<and> 0 \<le> (page - 1) * lim \<longrightarrow>
        (\<exists>msgs s' p.
            getMessages now c u page lim s = (Inr msgs, s')
          \<and> sorted (map createdAt msgs)
          \<and> set msgs \<subseteq> {m \<in> set (messages s). msg_conversationId m = c}
          \<and> find_participant s c u = Some p
          \<and> find_participant s' c u = Some (p\<lparr>lastReadAt := now\<rparr>)
          \<and> conversations s' = conversations s \<and> messages s' = messages s
          \<and> reactions s' = reactions s))
   \<and> (some_participant s c u \<and> 1 \<le> page \<and> 0 \<le> lim \<longrightarrow>
        (\<exists>msgs s' older newer.
            getMessages now c u page lim s = (Inr msgs, s')
          \<and> mset (older @ msgs @ newer)
              = mset (filter (\<lambda>m. msg_conversationId m = c) (messages s))
          \<and> sorted (map createdAt (older @ msgs @ newer))
          \<and> length newer
              = min (nat ((page - 1) * lim))
                    (length (filter (\<lambda>m. msg_conversationId m = c) (messages s)))
          \<and> length msgs
              = min (nat lim) (length (filter (\<lambda>m. msg_conversationId m = c) (messages s))
                         - nat ((page - 1) * lim))))"
proof (intro conjI impI)
  assume "\<not> some_participant s c u"
  then have "find_participant s c u = None"
    by (simp add: find_participant_None_iff)
  then show "getMessages now c u page lim s = (Inl ForbiddenError, s)"
    by (simp add: getMessages_def)
next
  assume a: "some_participant s c u \<and> (page - 1) * lim < 0"
  then obtain p where p: "find_participant s c u = Some p"
    by (cases "find_participant s c u") (auto simp: find_participant_None_iff)
  with a show "getMessages now c u page lim s = (Inl PrismaValidationError, s)"
    by (simp add: getMessages_def findMany_messages_def)
next
  assume a: "some_participant s c u \<and> 0 \<le> (page - 1) * lim"
  then obtain p where p: "find_participant s c u = Some p"
    by (cases "find_participant s c u") (auto simp: find_participant_None_iff)
  from a have "\<exists>found. findMany_messages s c ((page - 1) * lim) lim = Inr found"
    by (cases "0 \<le> lim") (simp_all add: findMany_messages_def not_less)
  then obtain found where found: "findMany_messages s c ((page - 1) * lim) lim = Inr found"
    by blast
  define s' where "s' = touch_lastReadAt now (part_id p) s"
  have run: "getMessages now c u page lim s = (Inr (rev found), s')"
    by (simp add: getMessages_def p found s'_def)
  from findMany_messages_sorted [OF found]
  have "sorted (map createdAt (rev found))"
    and "set (rev found) \<subseteq> {m \<in> set (messages s). msg_conversationId m = c}"
    by simp_all
  moreover have "find_participant s' c u = Some (p\<lparr>lastReadAt := now\<rparr>)"
    unfolding s'_def using p by (rule find_participant_touch)
  moreover have "conversations s' = conversations s" "messages s' = messages s"
    "reactions s' = reactions s"
    by (simp_all add: s'_def touch_lastReadAt_def)
  ultimately show "\<exists>msgs s' p.
            getMessages now c u page lim s = (Inr msgs, s')
          \<and> sorted (map createdAt msgs)
          \<and> set msgs \<subseteq> {m \<in> set (messages s). msg_conversationId m = c}
          \<and> find_participant s c u = Some p
          \<and> find_participant s' c u = Some (p\<lparr>lastReadAt := now\<rparr>)
          \<and> conversations s' = conversations s \<and> messages s' = messages s
          \<and> reactions s' = reactions s"
    using run p by blast
next
  assume a: "some_participant s c u \<and> 1 \<le> page \<and> 0 \<le> lim"
  then obtain p where p: "find_participant s c u = Some p"
    by (cases "find_participant s c u") (auto simp: find_participant_None_iff)
  define S where "S = sort_key createdAt (filter (\<lambda>m. msg_conversationId m = c) (messages s))"
  define n where "n = length S"
  define k where "k = nat ((page - 1) * lim)"
  define l where "l = nat lim"
  define msgs where "msgs = drop (n - k - l) (take (n - k) S)"
  define s' where "s' = touch_lastReadAt now (part_id p) s"
  have skip: "\<not> (page - 1) * lim < 0"
    using a by (simp add: not_less)
  have run: "getMessages now c u page lim s = (Inr msgs, s')"
    using a skip
    by (simp add: getMessages_def p findMany_messages_def newest_first_def
        S_def[symmetric] msgs_def n_def k_def l_def page_slice s'_def)
  have whole: "take (n - k - l) S @ msgs @ drop (n - k) S = S"
    unfolding msgs_def n_def by (rule page_split)
  have len: "length (filter (\<lambda>m. msg_conversationId m = c) (messages s)) = n"
    by (simp add: n_def S_def)
  have "mset (take (n - k - l) S @ msgs @ drop (n - k) S)
      = mset (filter (\<lambda>m. msg_conversationId m = c) (messages s))"
    unfolding whole by (simp add: S_def)
  moreover have "sorted (map createdAt (take (n - k - l) S @ msgs @ drop (n - k) S))"
    unfolding whole by (simp add: S_def)
  moreover have "length (drop (n - k) S) = min k n"
    by (simp add: n_def)
  moreover have "length msgs = min l (n - k)"
    by (simp add: msgs_def n_def)
  ultimately show "\<exists>msgs s' older newer.
            getMessages now c u page lim s = (Inr msgs, s')
          \<and> mset (older @ msgs @ newer)
              = mset (filter (\<lambda>m. msg_conversationId m = c) (messages s))
          \<and> sorted (map createdAt (older @ msgs @ newer))
          \<and> length newer
              = min (nat ((page - 1) * lim))
                    (length (filter (\<lambda>m. msg_conversationId m = c) (messages s)))
          \<and> length msgs
              = min (nat lim) (length (filter (\<lambda>m. msg_conversationId m = c) (messages s))
                         - nat ((page - 1) * lim))"
    using run unfolding len k_def[symmetric] l_def[symmetric] by blast
qed

theorem getMessages_pages_witness:
  "\<not> some_participant demo_store 0 99
   \<and> getMessages 9000 0 99 1 2 demo_store = (Inl ForbiddenError, demo_store)
   \<and> some_participant demo_store 0 10
   \<and> (0 - 1) * 2 < (0::int)
   \<and> getMessages 9000 0 10 0 2 demo_store = (Inl PrismaValidationError, demo_store)
   \<and> (0::int) \<le> (1 - 1) * 2 \<and> (1::int) \<le> 1 \<and> (0::int) \<le> 2
   \<and> fst (getMessages 9000 0 10 1 2 demo_store) = Inr [demo_yo, demo_ok]
   \<and> fst (getMessages 9000 0 10 2 2 demo_store) = Inr [demo_hi]
   \<and> (\<exists>msgs s' p.
            getMessages 9000 0 10 1 2 demo_store = (Inr msgs, s')
          \<and> sorted (map createdAt msgs)
          \<and> set msgs \<subseteq> {m \<in> set (messages demo_store). msg_conversationId m = 0}
          \<and> find_participant demo_store 0 10 = Some p
          \<and> find_participant s' 0 10 = Some (p\<lparr>lastReadAt := 9000\<rparr>)
          \<and> conversations s' = conversations demo_store \<and> messages s' = messages demo_store
          \<and> reactions s' = reactions demo_store)
   \<and> (\<exists>msgs s' older newer.
            getMessages 9000 0 10 1 2 demo_store = (Inr msgs, s')
          \<and> mset (older @ msgs @ newer)
              = mset (filter (\<lambda>m. msg_conversationId m = 0) (messages demo_store))
          \<and> sorted (map createdAt (older @ msgs @ newer))
          \<and> length newer
              = min (nat ((1 - 1) * 2))
                    (length (filter (\<lambda>m. msg_conversationId m = 0) (messages demo_store)))
          \<and> length msgs
              = min (nat 2) (length (filter (\<lambda>m. msg_conversationId m = 0) (messages demo_store))
                         - nat ((1 - 1) * 2)))"
proof -
  have stranger: "\<not> some_participant demo_store 0 99"
    by (simp add: demo_store_def some_participant_def)
  have member: "some_participant demo_store 0 10"
    by (simp add: demo_store_def some_participant_def)
  have numbers: "(0 - 1) * 2 < (0::int)" "(0::int) \<le> (1 - 1) * 2" "(1::int) \<le> 1" "(0::int) \<le> 2"
    by simp_all
  have page1: "fst (getMessages 9000 0 10 1 2 demo_store) = Inr [demo_yo, demo_ok]"
    by (simp add: getMessages_def find_participant_def findMany_messages_def newest_first_def
        demo_store_def demo_hi_def demo_yo_def demo_ok_def)
  have page2: "fst (getMessages 9000 0 10 2 2 demo_store) = Inr [demo_hi]"
    by (simp add: getMessages_def find_participant_def findMany_messages_def newest_first_def
        demo_store_def demo_hi_def demo_yo_def demo_ok_def)
  note outsider = getMessages_pages [of demo_store 0 99 9000 1 2]
  note page_zero = getMessages_pages [of demo_store 0 10 9000 0 2]
  note page_one = getMessages_pages [of demo_store 0 10 9000 1 2]
  from outsider stranger
  have refused: "getMessages 9000 0 99 1 2 demo_store = (Inl ForbiddenError, demo_store)"
    by blast
  from page_zero member numbers(1)
  have rejected: "getMessages 9000 0 10 0 2 demo_store = (Inl PrismaValidationError, demo_store)"
    by blast
  from page_one member numbers stranger refused rejected page1 page2
  show ?thesis
    by blast
qed

text \<open>
  C5 as stated fails: user 10 is a participant of conversation 0 and asks for page 0 with
  limit 2. The call fails, though not with \<open>ForbiddenError\<close>, and the watermark of
  user 10 is not advanced to the time 9000 of the call. The same happens through the
  controller for the query \<open>?page=-1\<close>.
\<close>

theorem getMessages_page_zero_rejected:
  "some_participant demo_store 0 10
   \<and> fst (getMessages 9000 0 10 0 2 demo_store) = Inl PrismaValidationError
   \<and> find_participant (snd (getMessages 9000 0 10 0 2 demo_store)) 0 10 = Some demo_reader
   \<and> lastReadAt demo_reader = 1000
   \<and> fst (getMessages_controller 9000 0 10 (Some (- 1)) None demo_store)
       = Inl PrismaValidationError
   \<and> find_participant (snd (getMessages_controller 9000 0 10 (Some (- 1)) None demo_store)) 0 10
       = Some demo_reader"
  by (simp add: getMessages_controller_def or_default_def getMessages_def findMany_messages_def
      find_participant_def some_participant_def demo_store_def demo_reader_def)

section \<open>Histories of requests\<close>

subsection \<open>What one request does to the participant table\<close>

lemma rows_touch:
  "p' \<in> set (participants (touch_lastReadAt now i s))
    \<Longrightarrow> p' \<in> set (participants s) \<or> lastReadAt p' = now"
  by (auto simp: touch_lastReadAt_def)

lemma rows_getOrCreateConversation:
  "p' \<in> set (participants (snd (getOrCreateConversation now a b s)))
    \<Longrightarrow> p' \<in> set (participants s) \<or> lastReadAt p' = now"
  by (auto simp: getOrCreateConversation_def create_conversation_def Let_def
      split: if_splits option.splits)

lemma rows_exec:
  "p' \<in> set (participants (exec now r s))
    \<Longrightarrow> p' \<in> set (participants s) \<or> lastReadAt p' = now"
proof (cases r)
  case (GetOrCreateConversation a b)
  then show "p' \<in> set (participants (exec now r s))
    \<Longrightarrow> p' \<in> set (participants s) \<or> lastReadAt p' = now"
    by (simp add: rows_getOrCreateConversation)
next
  case (GetMessages c u page lim)
  then show "p' \<in> set (participants (exec now r s))
    \<Longrightarrow> p' \<in> set (participants s) \<or> lastReadAt p' = now"
    by (auto simp: getMessages_def dest: rows_touch split: option.splits sum.splits)
next
  case (SendMessage a b content)
  then show "p' \<in> set (participants (exec now r s))
    \<Longrightarrow> p' \<in> set (participants s) \<or> lastReadAt p' = now"
    using rows_getOrCreateConversation [of p' now a b s]
    by (auto simp: sendMessage_def Let_def split: prod.splits sum.splits)
next
  case (EditMessage m u content)
  then show "p' \<in> set (participants (exec now r s))
    \<Longrightarrow> p' \<in> set (participants s) \<or> lastReadAt p' = now"
    by (auto simp: editMessage_def Let_def split: option.splits if_splits)
next
  case (DeleteMessage m u)
  then show "p' \<in> set (participants (exec now r s))
    \<Longrightarrow> p' \<in> set (participants s) \<or> lastReadAt p' = now"
    by (auto simp: deleteMessage_def split: option.splits if_splits)
next
  case (AddReaction m u e)
  then show "p' \<in> set (participants (exec now r s))
    \<Longrightarrow> p' \<in> set (participants s) \<or> lastReadAt p' = now"
    by (auto simp: addReaction_def Let_def split: option.splits if_splits)
next
  case (DeleteConversation c u)
  then show "p' \<in> set (participants (exec now r s))
    \<Longrightarrow> p' \<in> set (participants s) \<or> lastReadAt p' = now"
    by (auto simp: deleteConversation_def split: option.splits if_splits)
next
  case (MarkAsRead c u)
  then show "p' \<in> set (participants (exec now r s))
    \<Longrightarrow> p' \<in> set (participants s) \<or> lastReadAt p' = now"
    by (auto simp: markAsRead_def dest: rows_touch split: option.splits)
qed

lemma getOrCreateConversation_shape:
  "(participants (snd (getOrCreateConversation now a b s)) = participants s
    \<or> (a \<noteq> b \<and> nextId s + 3 \<le> nextId (snd (getOrCreateConversation now a b s))
        \<and> participants (snd (getOrCreateConversation now a b s))
            = participants s @ new_participants now a b s))
   \<and> nextId s \<le> nextId (snd (getOrCreateConversation now a b s))"
  by (simp add: getOrCreateConversation_def create_conversation_def new_participants_def Let_def
      split: option.splits)

lemma sendMessage_shape:
  "(participants (snd (sendMessage now a b content s)) = participants s
    \<or> (a \<noteq> b \<and> nextId s + 3 \<le> nextId (snd (sendMessage now a b content s))
        \<and> participants (snd (sendMessage now a b content s))
            = participants s @ new_participants now a b s))
   \<and> nextId s \<le> nextId (snd (sendMessage now a b content s))"
  using getOrCreateConversation_shape [of now a b s]
  by (auto simp: sendMessage_def Let_def split: prod.splits sum.splits)

lemma exec_shape:
  "(participants (exec now r s) = participants s
    \<or> (\<exists>i. participants (exec now r s)
            = map (\<lambda>p. if part_id p = i then p\<lparr>lastReadAt := now\<rparr> else p) (participants s))
    \<or> (\<exists>c. participants (exec now r s)
            = filter (\<lambda>p. part_conversationId p \<noteq> c) (participants s))
    \<or> (\<exists>a b. a \<noteq> b \<and> nextId s + 3 \<le> nextId (exec now r s)
            \<and> participants (exec now r s) = participants s @ new_participants now a b s))
   \<and> nextId s \<le> nextId (exec now r s)"
proof (cases r)
  case (GetOrCreateConversation a b)
  then show ?thesis
    using getOrCreateConversation_shape [of now a b s] by (simp only: exec.simps) blast
next
  case (GetMessages c u page lim)
  have "participants (snd (getMessages now c u page lim s)) = participants s
      \<or> (\<exists>i. participants (snd (getMessages now c u page lim s))
            = map (\<lambda>p. if part_id p = i then p\<lparr>lastReadAt := now\<rparr> else p) (participants s))"
    by (auto simp: getMessages_def touch_lastReadAt_def split: option.splits sum.splits)
  moreover have "nextId (snd (getMessages now c u page lim s)) = nextId s"
    by (simp add: getMessages_def touch_lastReadAt_def split: option.splits sum.splits)
  ultimately show ?thesis
    using GetMessages by (simp only: exec.simps) blast
next
  case (SendMessage a b content)
  then show ?thesis
    using sendMessage_shape [of now a b content s] by (simp only: exec.simps) blast
next
  case (EditMessage m u content)
  then show ?thesis
    by (simp add: editMessage_def Let_def split: option.splits)
next
  case (DeleteMessage m u)
  then show ?thesis
    by (simp add: deleteMessage_def split: option.splits)
next
  case (AddReaction m u e)
  then show ?thesis
    by (simp add: addReaction_def Let_def split: option.splits)
next
  case (DeleteConversation c u)
  have "participants (snd (deleteConversation c u s)) = participants s
      \<or> participants (snd (deleteConversation c u s))
          = filter (\<lambda>p. part_conversationId p \<noteq> c) (participants s)"
    by (simp add: deleteConversation_def split: option.splits)
  moreover have "nextId (snd (deleteConversation c u s)) = nextId s"
    by (simp add: deleteConversation_def split: option.splits)
  ultimately show ?thesis
    using DeleteConversation by (simp only: exec.simps) blast
next
  case (MarkAsRead c u)
  have "participants (snd (markAsRead now c u s)) = participants s
      \<or> (\<exists>i. participants (snd (markAsRead now c u s))
            = map (\<lambda>p. if part_id p = i then p\<lparr>lastReadAt := now\<rparr> else p) (participants s))"
    by (auto simp: markAsRead_def touch_lastReadAt_def split: option.splits)
  moreover have "nextId (snd (markAsRead now c u s)) = nextId s"
    by (simp add: markAsRead_def touch_lastReadAt_def split: option.splits)
  ultimately show ?thesis
    using MarkAsRead by (simp only: exec.simps) blast
qed


subsection \<open>Invariants\<close>

lemma has_self_conversation_iff:
  "has_self_conversation s \<longleftrightarrow>
     (\<exists>p \<in> set (participants s). \<exists>q \<in> set (participants s).
        part_id q \<noteq> part_id p \<and> part_conversationId q = part_conversationId p
        \<and> part_userId q = part_userId p)"
  by (simp add: has_self_conversation_def list_ex_iff)

lemma well_formed_exec:
  assumes inv: "well_formed s"
  shows "well_formed (exec now r s)"
proof -
  let ?s' = "exec now r s"
  from inv have keys: "distinct (map part_id (participants s))"
    and bound: "\<forall>p \<in> set (participants s).
        part_id p < nextId s \<and> part_conversationId p < nextId s"
    and noself: "\<not> has_self_conversation s"
    by (simp_all add: well_formed_def list_all_iff)
  from exec_shape [of now r s] have grow: "nextId s \<le> nextId ?s'"
    by blast
  from exec_shape [of now r s] consider
      (same) "participants ?s' = participants s"
    | (touch) i where "participants ?s'
        = map (\<lambda>p. if part_id p = i then p\<lparr>lastReadAt := now\<rparr> else p) (participants s)"
    | (drop) c where "participants ?s'
        = filter (\<lambda>p. part_conversationId p \<noteq> c) (participants s)"
    | (create) a b where "a \<noteq> b" and "nextId s + 3 \<le> nextId ?s'"
        and "participants ?s' = participants s @ new_participants now a b s"
    by blast
  then show ?thesis
  proof cases
    case same
    then show ?thesis
      using keys bound noself grow
      by (fastforce simp: well_formed_def list_all_iff has_self_conversation_iff)
  next
    case touch
    let ?f = "\<lambda>p. if part_id p = i then p\<lparr>lastReadAt := now\<rparr> else p"
    have ids: "map part_id (map ?f (participants s)) = map part_id (participants s)"
      by (induction "participants s") (simp_all add: comp_def)
    have "distinct (map part_id (participants ?s'))"
      using keys by (simp only: touch ids)
    moreover have "\<forall>p \<in> set (participants ?s').
        part_id p < nextId ?s' \<and> part_conversationId p < nextId ?s'"
      using bound grow by (fastforce simp: touch)
    moreover have "\<not> has_self_conversation ?s'"
      using noself by (fastforce simp: has_self_conversation_iff touch split: if_splits)
    ultimately show ?thesis
      by (simp add: well_formed_def list_all_iff)
  next
    case drop
    have "distinct (map part_id (participants ?s'))"
      using keys by (simp add: drop distinct_map_filter)
    moreover have "\<forall>p \<in> set (participants ?s').
        part_id p < nextId ?s' \<and> part_conversationId p < nextId ?s'"
      using bound grow by (fastforce simp: drop)
    moreover have "\<not> has_self_conversation ?s'"
      using noself by (fastforce simp: has_self_conversation_iff drop)
    ultimately show ?thesis
      by (simp add: well_formed_def list_all_iff)
  next
    case create
    have "distinct (map part_id (participants ?s'))"
      using keys bound by (fastforce simp: create new_participants_def)
    moreover have "\<forall>p \<in> set (participants ?s').
        part_id p < nextId ?s' \<and> part_conversationId p < nextId ?s'"
      using bound create(2) by (fastforce simp: create(3) new_participants_def)
    moreover have "\<not> has_self_conversation ?s'"
      using noself bound create(1)
      by (fastforce simp: has_self_conversation_iff create(3) new_participants_def)
    ultimately show ?thesis
      by (simp add: well_formed_def list_all_iff)
  qed
qed

lemma read_before_exec:
  assumes "read_before t s" and "t \<le> now"
  shows "read_before now (exec now r s)"
proof -
  have "lastReadAt p' \<le> now" if "p' \<in> set (participants (exec now r s))" for p'
    using rows_exec [OF that] assms by (fastforce simp: read_before_def list_all_iff)
  then show ?thesis
    by (simp add: read_before_def list_all_iff)
qed

lemma old_rows_exec:
  assumes inv: "read_before t s" and later: "t \<le> now"
    and row: "p' \<in> set (participants (exec now r s))" and old: "part_id p' < nextId s"
  shows "\<exists>p \<in> set (participants s). part_id p = part_id p' \<and> lastReadAt p \<le> lastReadAt p'"
proof -
  let ?s' = "exec now r s"
  from inv have bound: "\<forall>p \<in> set (participants s). lastReadAt p \<le> t"
    by (simp add: read_before_def list_all_iff)
  from exec_shape [of now r s] consider
      (same) "participants ?s' = participants s"
    | (touch) i where "participants ?s'
        = map (\<lambda>p. if part_id p = i then p\<lparr>lastReadAt := now\<rparr> else p) (participants s)"
    | (drop) c where "participants ?s'
        = filter (\<lambda>p. part_conversationId p \<noteq> c) (participants s)"
    | (create) a b where "a \<noteq> b" and "nextId s + 3 \<le> nextId ?s'"
        and "participants ?s' = participants s @ new_participants now a b s"
    by blast
  then show ?thesis
  proof cases
    case same
    with row show ?thesis by auto
  next
    case touch
    with row bound later show ?thesis by (fastforce split: if_splits)
  next
    case drop
    with row show ?thesis by auto
  next
    case create
    with row old show ?thesis by (auto simp: new_participants_def)
  qed
qed

lemma run_append: "run (xs @ ys) s = run ys (run xs s)"
  by (induction xs arbitrary: s) auto

lemma well_formed_run: "well_formed s \<Longrightarrow> well_formed (run rs s)"
proof (induction rs arbitrary: s)
  case Nil
  then show ?case by simp
next
  case (Cons x rs)
  obtain now r where x: "x = (now, r)" by (cases x)
  from Cons.prems have "well_formed (exec now r s)"
    by (rule well_formed_exec)
  then have "well_formed (run rs (exec now r s))"
    by (rule Cons.IH)
  then show ?case by (simp add: x)
qed

lemma read_before_run:
  assumes "read_before t s" and "sorted (t # map fst rs)"
  shows "read_before (last (t # map fst rs)) (run rs s)"
  using assms
proof (induction rs arbitrary: t s)
  case Nil
  then show ?case by simp
next
  case (Cons x rs)
  obtain now r where x: "x = (now, r)" by (cases x)
  from Cons.prems have "read_before now (exec now r s)" and "sorted (now # map fst rs)"
    by (simp_all add: x read_before_exec)
  from Cons.IH [OF this] show ?case
    by (simp add: x)
qed

lemma old_rows_run:
  assumes "read_before t s" and "sorted (t # map fst rs)"
    and "p' \<in> set (participants (run rs s))" and "part_id p' < nextId s"
  shows "\<exists>p \<in> set (participants s). part_id p = part_id p' \<and> lastReadAt p \<le> lastReadAt p'"
  using assms
proof (induction rs arbitrary: t s)
  case Nil
  then show ?case by auto
next
  case (Cons x rs)
  obtain now r where x: "x = (now, r)" by (cases x)
  let ?s1 = "exec now r s"
  from Cons.prems have later: "t \<le> now" and rest: "sorted (now # map fst rs)"
    by (simp_all add: x)
  have inv1: "read_before now ?s1"
    using Cons.prems(1) later by (rule read_before_exec)
  have "nextId s \<le> nextId ?s1"
    using exec_shape [of now r s] by blast
  with Cons.prems have "p' \<in> set (participants (run rs ?s1))" and "part_id p' < nextId ?s1"
    by (simp_all add: x)
  from Cons.IH [OF inv1 rest this]
  obtain p1 where p1: "p1 \<in> set (participants ?s1)" "part_id p1 = part_id p'"
    "lastReadAt p1 \<le> lastReadAt p'"
    by blast
  with Cons.prems have "part_id p1 < nextId s"
    by simp
  from old_rows_exec [OF Cons.prems(1) later p1(1) this]
  obtain p where "p \<in> set (participants s)" "part_id p = part_id p1"
    "lastReadAt p \<le> lastReadAt p1"
    by blast
  with p1 show ?case
    by auto
qed

lemma well_formed_empty: "well_formed empty_store"
  by (simp add: well_formed_def empty_store_def has_self_conversation_def)

lemma read_before_empty: "read_before t empty_store"
  by (simp add: read_before_def empty_store_def)

lemma sorted_start:
  "sorted (map fst rs) \<Longrightarrow> sorted ((case rs of [] \<Rightarrow> 0 | x # _ \<Rightarrow> fst x) # map fst rs)"
  by (cases rs) auto

lemma watermark_along_run:
  assumes times: "sorted (map fst (before @ after))"
    and p: "p \<in> set (participants (run before empty_store))"
    and p': "p' \<in> set (participants (run (before @ after) empty_store))"
    and same: "part_id p' = part_id p"
  shows "lastReadAt p \<le> lastReadAt p'"
proof -
  define t0 where "t0 = (case before @ after of [] \<Rightarrow> 0 | x # _ \<Rightarrow> fst x)"
  define s where "s = run before empty_store"
  define t where "t = last (t0 # map fst before)"
  have all: "sorted (t0 # map fst (before @ after))"
    unfolding t0_def using times by (rule sorted_start)
  then have "sorted (t0 # map fst before)"
    by (simp add: sorted_append)
  with read_before_empty have inv: "read_before t s"
    unfolding t_def s_def by (rule read_before_run)
  have wf: "well_formed s"
    unfolding s_def using well_formed_empty by (rule well_formed_run)
  have after: "sorted (t # map fst after)"
    using all by (cases before rule: rev_cases) (auto simp: t_def sorted_append)
  have "p' \<in> set (participants (run after s))"
    using p' by (simp add: run_append s_def)
  moreover have "part_id p' < nextId s"
    using wf p same by (auto simp: well_formed_def list_all_iff s_def)
  ultimately obtain q where q: "q \<in> set (participants s)" "part_id q = part_id p'"
    "lastReadAt q \<le> lastReadAt p'"
    using old_rows_run [OF inv after] by blast
  have "distinct (map part_id (participants s))"
    using wf by (simp add: well_formed_def)
  with q p same have "q = p"
    by (auto simp: s_def distinct_map dest: inj_onD)
  with q show ?thesis by simp
qed

lemma reachable_without_self_conversation:
  "\<not> has_self_conversation (run rs empty_store)"
  using well_formed_run [OF well_formed_empty, of rs]
  by (simp add: well_formed_def)

subsection \<open>No conversation with oneself\<close>

text \<open>
  C9: \<open>getOrCreateConversation u u\<close> fails with \<open>ValidationError\<close> and leaves the
  store as it was, for every user, store and time; so does sending a message to oneself,
  the only other path that creates conversations. No state that the service reaches from
  the empty store, whatever the requests, holds a conversation of a user with themselves.
\<close>

theorem no_self_conversation:
  "getOrCreateConversation now u u s = (Inl ValidationError, s)
   \<and> sendMessage now u u content s = (Inl ValidationError, s)
   \<and> \<not> has_self_conversation (run history empty_store)"
  using reachable_without_self_conversation [of history]
  by (simp add: getOrCreateConversation_def sendMessage_def)

subsection \<open>The read watermark\<close>

text \<open>
  C8: whatever the request, a participant record of the resulting store is a record of
  the store before or carries \<open>lastReadAt = now\<close>. Hence, with unique record ids and
  a current time that is not earlier than the stored watermark, the watermark of a record
  that is still there has not decreased. Along every history of requests from the empty
  store whose times do not go back, the watermark of a participant record never
  decreases. \<open>markAsRead\<close>, and \<open>getMessages\<close> whenever its \<open>skip\<close> is not
  negative (so for every page from 1 on with a limit that is not negative), set the
  caller's watermark to the current time.
\<close>

theorem lastReadAt_never_decreases:
  "(p' \<in> set (participants (exec now r s))
      \<longrightarrow> p' \<in> set (participants s) \<or> lastReadAt p' = now)
   \<and> (distinct (map part_id (participants s)) \<and> p \<in> set (participants s)
        \<and> lastReadAt p \<le> now
        \<and> p' \<in> set (participants (exec now r s)) \<and> part_id p' = part_id p
      \<longrightarrow> lastReadAt p \<le> lastReadAt p')
   \<and> (sorted (map fst (before @ after))
        \<and> p \<in> set (participants (run before empty_store))
        \<and> p' \<in> set (participants (run (before @ after) empty_store))
        \<and> part_id p' = part_id p
      \<longrightarrow> lastReadAt p \<le> lastReadAt p')
   \<and> (some_participant s c u
      \<longrightarrow> (\<exists>q. find_participant s c u = Some q
             \<and> find_participant (exec now (MarkAsRead c u) s) c u
                 = Some (q\<lparr>lastReadAt := now\<rparr>)))
   \<and> (some_participant s c u \<and> 0 \<le> (page - 1) * lim
      \<longrightarrow> (\<exists>q. find_participant s c u = Some q
             \<and> find_participant (exec now (GetMessages c u page lim) s) c u
                 = Some (q\<lparr>lastReadAt := now\<rparr>)))"
proof (intro conjI impI)
  assume "p' \<in> set (participants (exec now r s))"
  then show "p' \<in> set (participants s) \<or> lastReadAt p' = now"
    by (rule rows_exec)
next
  assume a: "distinct (map part_id (participants s)) \<and> p \<in> set (participants s)
        \<and> lastReadAt p \<le> now
        \<and> p' \<in> set (participants (exec now r s)) \<and> part_id p' = part_id p"
  then have "p' \<in> set (participants s) \<or> lastReadAt p' = now"
    using rows_exec by blast
  then show "lastReadAt p \<le> lastReadAt p'"
  proof
    assume "p' \<in> set (participants s)"
    with a have "p' = p"
      by (auto simp: distinct_map dest: inj_onD)
    then show ?thesis by simp
  next
    assume "lastReadAt p' = now"
    with a show ?thesis by simp
  qed
next
  assume "sorted (map fst (before @ after))
        \<and> p \<in> set (participants (run before empty_store))
        \<and> p' \<in> set (participants (run (before @ after) empty_store))
        \<and> part_id p' = part_id p"
  then show "lastReadAt p \<le> lastReadAt p'"
    using watermark_along_run by blast
next
  assume "some_participant s c u"
  then obtain q where q: "find_participant s c u = Some q"
    by (cases "find_participant s c u") (auto simp: find_participant_None_iff)
  then have "find_participant (exec now (MarkAsRead c u) s) c u = Some (q\<lparr>lastReadAt := now\<rparr>)"
    by (simp add: markAsRead_def find_participant_touch)
  with q show "\<exists>q. find_participant s c u = Some q
             \<and> find_participant (exec now (MarkAsRead c u) s) c u
                 = Some (q\<lparr>lastReadAt := now\<rparr>)"
    by blast
next
  assume a: "some_participant s c u \<and> 0 \<le> (page - 1) * lim"
  then obtain q where q: "find_participant s c u = Some q"
    by (cases "find_participant s c u") (auto simp: find_participant_None_iff)
  have "\<not> (page - 1) * lim < 0"
    using a by (simp add: not_less)
  then have "find_participant (exec now (GetMessages c u page lim) s) c u
      = Some (q\<lparr>lastReadAt := now\<rparr>)"
    using q by (simp add: getMessages_def findMany_messages_def find_participant_touch)
  with q show "\<exists>q. find_participant s c u = Some q
             \<and> find_participant (exec now (GetMessages c u page lim) s) c u
                 = Some (q\<lparr>lastReadAt := now\<rparr>)"
    by blast
qed

theorem lastReadAt_never_decreases_witness:
  "demo_reader\<lparr>lastReadAt := 9000\<rparr> \<in> set (participants (exec 9000 (MarkAsRead 0 10) demo_store))
   \<and> (demo_reader\<lparr>lastReadAt := 9000\<rparr> \<in> set (participants demo_store)
        \<or> lastReadAt (demo_reader\<lparr>lastReadAt := 9000\<rparr>) = 9000)
   \<and> distinct (map part_id (participants demo_store))
   \<and> demo_reader \<in> set (participants demo_store)
   \<and> lastReadAt demo_reader \<le> 9000
   \<and> part_id (demo_reader\<lparr>lastReadAt := 9000\<rparr>) = part_id demo_reader
   \<and> sorted (map fst ([(1000::time, SendMessage 10 20 [104, 105])] @ [(9000, MarkAsRead 0 10)]))
   \<and> demo_reader \<in> set (participants (run [(1000, SendMessage 10 20 [104, 105])] empty_store))
   \<and> demo_reader\<lparr>lastReadAt := 9000\<rparr>
       \<in> set (participants (run ([(1000, SendMessage 10 20 [104, 105])] @ [(9000, MarkAsRead 0 10)])
                 empty_store))
   \<and> lastReadAt demo_reader \<le> lastReadAt (demo_reader\<lparr>lastReadAt := 9000\<rparr>)
   \<and> some_participant demo_store 0 10 \<and> (0::int) \<le> (1 - 1) * 2
   \<and> (\<exists>q. find_participant demo_store 0 10 = Some q
         \<and> find_participant (exec 9000 (MarkAsRead 0 10) demo_store) 0 10
             = Some (q\<lparr>lastReadAt := 9000\<rparr>))
   \<and> (\<exists>q. find_participant demo_store 0 10 = Some q
         \<and> find_participant (exec 9000 (GetMessages 0 10 1 2) demo_store) 0 10
             = Some (q\<lparr>lastReadAt := 9000\<rparr>))"
proof -
  have row: "demo_reader\<lparr>lastReadAt := 9000\<rparr>
      \<in> set (participants (exec 9000 (MarkAsRead 0 10) demo_store))"
    by (simp add: markAsRead_def find_participant_def touch_lastReadAt_def demo_store_def
        demo_reader_def)
  have keys: "distinct (map part_id (participants demo_store))"
    by (simp add: demo_store_def)
  have old: "demo_reader \<in> set (participants demo_store)"
    by (simp add: demo_store_def demo_reader_def)
  have clock: "lastReadAt demo_reader \<le> 9000"
    by (simp add: demo_reader_def)
  have same: "part_id (demo_reader\<lparr>lastReadAt := 9000\<rparr>) = part_id demo_reader"
    by simp
  have times: "sorted (map fst ([(1000::time, SendMessage 10 20 [104, 105])]
      @ [(9000, MarkAsRead 0 10)]))"
    by simp
  have first: "demo_reader
      \<in> set (participants (run [(1000, SendMessage 10 20 [104, 105])] empty_store))"
    by (simp add: sendMessage_def getOrCreateConversation_def create_conversation_def
        empty_store_def demo_reader_def Let_def)
  have last: "demo_reader\<lparr>lastReadAt := 9000\<rparr>
      \<in> set (participants (run ([(1000, SendMessage 10 20 [104, 105])]
            @ [(9000, MarkAsRead 0 10)]) empty_store))"
    by (simp add: sendMessage_def getOrCreateConversation_def create_conversation_def
        markAsRead_def find_participant_def touch_lastReadAt_def
        empty_store_def demo_reader_def Let_def)
  have member: "some_participant demo_store 0 10 \<and> (0::int) \<le> (1 - 1) * 2"
    by (simp add: demo_store_def some_participant_def)
  note at_demo = lastReadAt_never_decreases [of "demo_reader\<lparr>lastReadAt := 9000\<rparr>" 9000
      "MarkAsRead 0 10" demo_store demo_reader "[(1000, SendMessage 10 20 [104, 105])]"
      "[(9000, MarkAsRead 0 10)]" 0 10 1 2]
  from at_demo row keys old clock same times first last member show ?thesis
    by blast
qed

section \<open>Stored message text\<close>

lemma tokens_dropWhile_space: "tokens (dropWhile isSpace s) = tokens s"
  by (induction s) simp_all

lemma tokens_all_space: "\<forall>x \<in> set ws. isSpace x \<Longrightarrow> tokens ws = []"
  by (induction ws) simp_all

lemma tokens_append_spaces:
  "\<forall>x \<in> set ws. isSpace x \<Longrightarrow> tokens (s @ ws) = tokens s"
proof (induction s rule: tokens.induct)
  case 1
  then show ?case by (simp add: tokens_all_space)
next
  case (2 c cs)
  show ?case
  proof (cases "isSpace c")
    case True
    with 2 show ?thesis by simp
  next
    case False
    show ?thesis
    proof (cases "\<forall>x \<in> set cs. \<not> isSpace x")
      case True
      have no_word: "takeWhile (\<lambda>x. \<not> isSpace x) ws = []"
        using "2.prems" by (cases ws) simp_all
      have "\<forall>x \<in> set (dropWhile (\<lambda>x. \<not> isSpace x) ws). isSpace x"
        using "2.prems" by (auto dest: set_dropWhileD)
      then have rest: "tokens (dropWhile (\<lambda>x. \<not> isSpace x) ws) = []"
        by (rule tokens_all_space)
      from True have eqs: "takeWhile (\<lambda>x. \<not> isSpace x) (cs @ ws) = cs"
        "dropWhile (\<lambda>x. \<not> isSpace x) (cs @ ws) = dropWhile (\<lambda>x. \<not> isSpace x) ws"
        "takeWhile (\<lambda>x. \<not> isSpace x) cs = cs"
        "dropWhile (\<lambda>x. \<not> isSpace x) cs = []"
        by (simp_all add: no_word)
      have "tokens ((c # cs) @ ws)
          = (c # takeWhile (\<lambda>x. \<not> isSpace x) (cs @ ws))
            # tokens (dropWhile (\<lambda>x. \<not> isSpace x) (cs @ ws))"
        using False by simp
      also have "\<dots> = [c # cs]"
        by (simp only: eqs rest)
      finally have left: "tokens ((c # cs) @ ws) = [c # cs]" .
      have "tokens (c # cs)
          = (c # takeWhile (\<lambda>x. \<not> isSpace x) cs)
            # tokens (dropWhile (\<lambda>x. \<not> isSpace x) cs)"
        using False by simp
      also have "\<dots> = [c # cs]"
        by (simp only: eqs tokens.simps)
      finally show ?thesis
        using left by simp
    next
      case some: False
      then have "takeWhile (\<lambda>x. \<not> isSpace x) (cs @ ws) = takeWhile (\<lambda>x. \<not> isSpace x) cs"
        and "dropWhile (\<lambda>x. \<not> isSpace x) (cs @ ws) = dropWhile (\<lambda>x. \<not> isSpace x) cs @ ws"
        by (auto simp: takeWhile_append1 dropWhile_append1)
      then show ?thesis
        using False "2.IH"(2) [OF False "2.prems"] by simp
    qed
  qed
qed

lemma tokens_trim: "tokens (trim s) = tokens s"
proof -
  let ?d = "dropWhile isSpace s"
  have split: "?d = rev (dropWhile isSpace (rev ?d)) @ rev (takeWhile isSpace (rev ?d))"
    by (metis rev_append rev_rev_ident takeWhile_dropWhile_id)
  have "\<forall>x \<in> set (rev (takeWhile isSpace (rev ?d))). isSpace x"
    by (auto dest: set_takeWhileD)
  then have "tokens (rev (dropWhile isSpace (rev ?d)) @ rev (takeWhile isSpace (rev ?d)))
      = tokens (rev (dropWhile isSpace (rev ?d)))"
    by (rule tokens_append_spaces)
  with split have "tokens (trim s) = tokens ?d"
    by (simp add: trim_def)
  then show ?thesis
    by (simp add: tokens_dropWhile_space)
qed


lemma tokens_nonempty: "\<exists>x \<in> set t. \<not> isSpace x \<Longrightarrow> tokens t \<noteq> []"
  by (induction t) auto

lemma join_space_more: "ws \<noteq> [] \<Longrightarrow> join_space (w # ws) = w @ 32 # join_space ws"
  by (cases ws) simp_all

lemma join_space_cons: "join_space ((c # w) # ws) = c # join_space (w # ws)"
  by (cases ws) simp_all

lemma last_dropWhile:
  "dropWhile P xs \<noteq> [] \<Longrightarrow> last (dropWhile P xs) = last xs"
  by (metis last_appendR takeWhile_dropWhile_id)

lemma replace_spaces_tokens:
  "t = [] \<or> \<not> isSpace (last t) \<Longrightarrow>
     replace_spaces t = (if t \<noteq> [] \<and> isSpace (hd t) then 32 # join_space (tokens t)
                         else join_space (tokens t))"
proof (induction t rule: replace_spaces.induct)
  case 1
  show ?case by simp
next
  case (2 c cs)
  from "2.prems" have last_ok: "\<not> isSpace (last (c # cs))"
    by simp
  show ?case
  proof (cases "isSpace c")
    case True
    let ?d = "dropWhile isSpace cs"
    from True last_ok have cs: "cs \<noteq> []" "\<not> isSpace (last cs)"
      by (auto split: if_splits)
    then have "last cs \<in> set cs"
      by simp
    with cs have d: "?d \<noteq> []"
      by (auto simp: dropWhile_eq_Nil_conv)
    then have "\<not> isSpace (hd ?d)" and "\<not> isSpace (last ?d)"
      using cs by (simp_all add: hd_dropWhile last_dropWhile)
    with "2.IH"(1) [OF True] d have "replace_spaces ?d = join_space (tokens ?d)"
      by simp
    then show ?thesis
      using True by (simp add: tokens_dropWhile_space)
  next
    case False
    have pre: "cs = [] \<or> \<not> isSpace (last cs)"
      using last_ok by (auto split: if_splits)
    note IH = "2.IH"(2) [OF False pre]
    show ?thesis
    proof (cases cs)
      case Nil
      then show ?thesis using False by simp
    next
      case (Cons x xs)
      show ?thesis
      proof (cases "isSpace x")
        case True
        have "last cs \<in> set cs"
          using Cons by simp
        then have "tokens cs \<noteq> []"
          using pre Cons by (intro tokens_nonempty) auto
        then have "join_space ([c] # tokens cs) = c # 32 # join_space (tokens cs)"
          by (simp add: join_space_more)
        moreover have "tokens (c # cs) = [c] # tokens cs"
          using False True Cons by simp
        moreover have "replace_spaces cs = 32 # join_space (tokens cs)"
          using IH True Cons by simp
        ultimately show ?thesis
          using False by simp
      next
        case nonspace: False
        have "tokens (c # cs)
            = (c # x # takeWhile (\<lambda>x. \<not> isSpace x) xs)
              # tokens (dropWhile (\<lambda>x. \<not> isSpace x) xs)"
          using False nonspace Cons by simp
        moreover have "tokens cs
            = (x # takeWhile (\<lambda>x. \<not> isSpace x) xs)
              # tokens (dropWhile (\<lambda>x. \<not> isSpace x) xs)"
          using nonspace Cons by simp
        ultimately have "join_space (tokens (c # cs)) = c # join_space (tokens cs)"
          by (simp only: join_space_cons)
        moreover have "replace_spaces cs = join_space (tokens cs)"
          using IH nonspace Cons by simp
        ultimately show ?thesis
          using False by simp
      qed
    qed
  qed
qed

lemma trim_ends:
  "trim s = [] \<or> (\<not> isSpace (hd (trim s)) \<and> \<not> isSpace (last (trim s)))"
proof (cases "trim s = []")
  case True
  then show ?thesis by simp
next
  case False
  let ?d = "dropWhile isSpace s"
  let ?e = "dropWhile isSpace (rev ?d)"
  from False have e: "?e \<noteq> []"
    by (simp add: trim_def)
  have d: "?d \<noteq> []"
  proof
    assume "?d = []"
    then have "?e = []" by (simp only: rev.simps dropWhile.simps)
    with e show False by blast
  qed
  have "last (trim s) = hd ?e"
    using e by (simp only: trim_def last_rev)
  then have tail_ok: "\<not> isSpace (last (trim s))"
    using hd_dropWhile [OF e] by simp
  have "hd (trim s) = last ?e"
    using e by (simp only: trim_def hd_rev)
  also have "\<dots> = last (rev ?d)"
    using e by (rule last_dropWhile)
  also have "\<dots> = hd ?d"
    using d by (simp add: last_rev)
  finally have "\<not> isSpace (hd (trim s))"
    using hd_dropWhile [OF d] by simp
  with tail_ok show ?thesis by simp
qed

lemma sanitizeString_tokens: "sanitizeString s = join_space (tokens s)"
proof -
  from trim_ends [of s]
  have "replace_spaces (trim s) = join_space (tokens (trim s))"
    by (subst replace_spaces_tokens) auto
  then show ?thesis
    by (simp add: sanitizeString_def tokens_trim)
qed

text \<open>
  C10: \<open>sanitizeString\<close> returns the words of its input joined by single spaces. A
  message created by \<open>sendMessage\<close> is stored with that text, and the first event of
  the \<open>message:send\<close> handler broadcasts the stored message to the room; a message
  rewritten by its sender through \<open>editMessage\<close> is stored and broadcast with that
  text as well.
\<close>

theorem stored_content_is_sanitized:
  "sanitizeString content = join_space (tokens content)
   \<and> (senderId \<noteq> recipientId \<longrightarrow>
        (\<exists>m cid s'. sendMessage now senderId recipientId content s = (Inr (m, cid), s')
           \<and> msg_content m = join_space (tokens content)
           \<and> messages s' = messages s @ [m]
           \<and> hd (fst (fst (on_message_send now \<lparr>sock_id = sid, sock_userId = senderId\<rparr>
                  recipientId content cb \<lparr>db = s, onlineUsers = online\<rparr>)))
               = (ToRoom cid, MessageNew m)))
   \<and> (find (\<lambda>x. msg_id x = messageId) (messages s) = Some m0 \<and> msg_senderId m0 = userId \<longrightarrow>
        (\<exists>m s'. editMessage now messageId userId content s = (Inr m, s')
           \<and> msg_content m = join_space (tokens content)
           \<and> find (\<lambda>x. msg_id x = messageId) (messages s') = Some m
           \<and> fst (fst (on_message_edit now \<lparr>sock_id = sid, sock_userId = userId\<rparr>
                  messageId content cb \<lparr>db = s, onlineUsers = online\<rparr>))
               = [(ToRoom (msg_conversationId m), MessageEdited m)]))"
proof (intro conjI impI)
  show "sanitizeString content = join_space (tokens content)"
    by (rule sanitizeString_tokens)
next
  assume distinct_users: "senderId \<noteq> recipientId"
  obtain c s1 where conv: "getOrCreateConversation now senderId recipientId s = (Inr c, s1)"
    and same: "messages s1 = messages s"
    using getOrCreateConversation_succeeds [OF distinct_users] by blast
  define m where "m = \<lparr>msg_id = nextId s1, msg_content = sanitizeString content,
      msg_conversationId = conv_id c, msg_senderId = senderId,
      createdAt = now, isEdited = False, editedAt = None\<rparr>"
  obtain s' where sent: "sendMessage now senderId recipientId content s = (Inr (m, conv_id c), s')"
    and stored: "messages s' = messages s @ [m]"
    using conv same by (simp add: sendMessage_def Let_def m_def)
  have "msg_content m = join_space (tokens content)"
    by (simp add: m_def sanitizeString_tokens)
  moreover have "hd (fst (fst (on_message_send now \<lparr>sock_id = sid, sock_userId = senderId\<rparr>
        recipientId content cb \<lparr>db = s, onlineUsers = online\<rparr>)))
      = (ToRoom (conv_id c), MessageNew m)"
    using sent by (simp add: on_message_send_def)
  ultimately show "\<exists>m cid s'. sendMessage now senderId recipientId content s = (Inr (m, cid), s')
           \<and> msg_content m = join_space (tokens content)
           \<and> messages s' = messages s @ [m]
           \<and> hd (fst (fst (on_message_send now \<lparr>sock_id = sid, sock_userId = senderId\<rparr>
                  recipientId content cb \<lparr>db = s, onlineUsers = online\<rparr>)))
               = (ToRoom cid, MessageNew m)"
    using sent stored by blast
next
  assume own: "find (\<lambda>x. msg_id x = messageId) (messages s) = Some m0 \<and> msg_senderId m0 = userId"
  let ?f = "\<lambda>x. if msg_id x = messageId
      then x\<lparr>msg_content := sanitizeString content, isEdited := True, editedAt := Some now\<rparr>
      else x"
  define m where "m = m0\<lparr>msg_content := sanitizeString content, isEdited := True,
      editedAt := Some now\<rparr>"
  define s' where "s' = s\<lparr>messages := map ?f (messages s)\<rparr>"
  have edited: "editMessage now messageId userId content s = (Inr m, s')"
    using own by (simp add: editMessage_def Let_def m_def s'_def)
  have "msg_id m0 = messageId"
    using own by (auto simp: find_Some_iff)
  then have fm: "?f m0 = m"
    by (simp add: m_def)
  have "find (\<lambda>x. msg_id x = messageId) (map ?f (messages s))
      = map_option ?f (find (\<lambda>x. msg_id x = messageId) (messages s))"
    by (rule find_map_same) simp
  then have again: "find (\<lambda>x. msg_id x = messageId) (messages s') = Some m"
    using own fm by (simp add: s'_def)
  have "msg_content m = join_space (tokens content)"
    by (simp add: m_def sanitizeString_tokens)
  moreover have "fst (fst (on_message_edit now \<lparr>sock_id = sid, sock_userId = userId\<rparr>
        messageId content cb \<lparr>db = s, onlineUsers = online\<rparr>))
      = [(ToRoom (msg_conversationId m), MessageEdited m)]"
    using edited by (simp add: on_message_edit_def)
  ultimately show "\<exists>m s'. editMessage now messageId userId content s = (Inr m, s')
           \<and> msg_content m = join_space (tokens content)
           \<and> find (\<lambda>x. msg_id x = messageId) (messages s') = Some m
           \<and> fst (fst (on_message_edit now \<lparr>sock_id = sid, sock_userId = userId\<rparr>
                  messageId content cb \<lparr>db = s, onlineUsers = online\<rparr>))
               = [(ToRoom (msg_conversationId m), MessageEdited m)]"
    using edited again by blast
qed

theorem stored_content_is_sanitized_witness:
  "sanitizeString [32, 97, 9, 10, 98, 32] = [97, 32, 98]
   \<and> (10::nat) \<noteq> 20
   \<and> (\<exists>m cid s'. sendMessage 9000 10 20 [32, 97, 9, 10, 98, 32] demo_store = (Inr (m, cid), s')
           \<and> msg_content m = [97, 32, 98]
           \<and> messages s' = messages demo_store @ [m]
           \<and> hd (fst (fst (on_message_send 9000 \<lparr>sock_id = ''A'', sock_userId = 10\<rparr>
                  20 [32, 97, 9, 10, 98, 32] True \<lparr>db = demo_store, onlineUsers = Map.empty\<rparr>)))
               = (ToRoom cid, MessageNew m))
   \<and> find (\<lambda>x. msg_id x = 3) (messages demo_store) = Some demo_hi
   \<and> msg_senderId demo_hi = 10
   \<and> (\<exists>m s'. editMessage 9000 3 10 [32, 97, 9, 10, 98, 32] demo_store = (Inr m, s')
           \<and> msg_content m = [97, 32, 98]
           \<and> find (\<lambda>x. msg_id x = 3) (messages s') = Some m
           \<and> fst (fst (on_message_edit 9000 \<lparr>sock_id = ''A'', sock_userId = 10\<rparr>
                  3 [32, 97, 9, 10, 98, 32] True \<lparr>db = demo_store, onlineUsers = Map.empty\<rparr>))
               = [(ToRoom (msg_conversationId m), MessageEdited m)])"
proof -
  have words: "join_space (tokens [32, 97, 9, 10, 98, 32]) = [97, 32, 98]"
    by (simp add: isSpace_def)
  have users: "(10::nat) \<noteq> 20"
    by simp
  have own: "find (\<lambda>x. msg_id x = 3) (messages demo_store) = Some demo_hi
      \<and> msg_senderId demo_hi = 10"
    by (simp add: demo_store_def demo_hi_def demo_yo_def)
  note at_demo = stored_content_is_sanitized [of "[32, 97, 9, 10, 98, 32]" 10 20 9000
      demo_store "''A''" True Map.empty 3 demo_hi 10, unfolded words]
  from at_demo users own show ?thesis
    by blast
qed

end
